theory Spec2Isabelle
  imports Main "HOL-Library.Sublist" "HOL-Library.List_Lexorder" "HOL-Library.Char_ord"
    "HOL-Library.Multiset" "HOL-Library.AList"
begin

section \<open>Conventions of the embedding\<close>

text \<open>
  The scraper (\<^verbatim>\<open>src/scraper.py\<close>) is embedded function by function. Python strings are
  modelled as \<^typ>\<open>string\<close>, a character being a code point below 256 (Latin-1):
  \<^verbatim>\<open>str.lower\<close>, \<^verbatim>\<open>str.isnumeric\<close>, \<^verbatim>\<open>int\<close> and the regular expression class \<^verbatim>\<open>\d\<close>
  are modelled on all of these characters.
  Every exception the source can raise is a value of \<open>error\<close>; a function that can raise
  returns \<open>error + 'a\<close> with \<open>Inl\<close> for the exception. Log calls of \<^verbatim>\<open>loguru\<close> are
  recorded as a list of typed events, oldest first. The worker threads of one show are
  modelled by running their bodies one after the other.
\<close>

datatype error =
    AttributeError
  | TypeError
  | ValueError
  | OSError
  | HTTPError
  | MissingSchema
  | ConnectionError
  | ChunkedEncodingError
  | ValidationError
  | JSONDecodeError

type_synonym path = "string list"

datatype log_event =
    SkipExists path
  | Saved path
  | SkipDontOverride string
  | SkipLatest path
  | SkipBonus string
  | SkipEpisodeExists path
  | SkipEpisodePage error
  | ChaptersRetry
  | ChaptersInvalid
  | ChaptersUnavailable
  | SponsorParseFailed error
  | TagParseFailed error
  | AvatarExists path
  | AvatarFailed error
  | FeedInvalid
  | LatestOnlyLimit nat
  | Banner string

datatype level = Debug | Info | Success | Warning | Error

type_synonym log = "(level \<times> log_event) list"

section \<open>Configuration\<close>

text \<open>
  \<^verbatim>\<open>ShowDetails\<close> of \<^verbatim>\<open>src/models/config.py\<close>, with the two attributes that
  \<^verbatim>\<open>src/scraper.py\<close> reads in addition (\<^verbatim>\<open>host_platform\<close> and \<^verbatim>\<open>dont_override\<close>). URLs
  are kept as strings.
\<close>

record show_details =
  show_rss :: string
  show_url :: string
  jb_url :: string
  acronym :: string
  name :: string
  host_platform :: string
  dont_override :: "string set"

text \<open>
  Modelled from the spec: the settings class \<^verbatim>\<open>models/scraper.py\<close> is not part of the
  sources. The record has the settings that \<^verbatim>\<open>src/scraper.py\<close> reads (section 6 of the
  specification: retry count, overwrite policy, latest-only limit, host and guest role
  sets); the data directory is a path.
\<close>

record settings =
  DATA_DIR :: path
  Overwrite_Existing :: bool
  Retry_Count :: nat
  LATEST_ONLY :: bool
  LATEST_ONLY_EP_LIMIT :: nat
  Host_Roles :: "string list"
  Guest_Roles :: "string list"

section \<open>Canonical usernames\<close>

text \<open>
  \<^verbatim>\<open>Person\<close> of \<^verbatim>\<open>src/models/podcast.py\<close>. The URL typed attributes are kept as strings.
\<close>

record person =
  role :: "string option"
  group :: "string option"
  href :: "string option"
  img :: "string option"
  name :: string

text \<open>
  \<^verbatim>\<open>str.lower\<close> on one character. The characters that have a lower-case form are the
  letters \<open>A\<close> to \<open>Z\<close> and the capital letters of Latin-1 (code points 192 to 222 without
  the multiplication sign 215); the tables list them with their lower-case forms.
\<close>

definition upper_latin :: string where
  "upper_latin = ''ABCDEFGHIJKLMNOPQRSTUVWXYZ'' @
     [CHR 0xC0, CHR 0xC1, CHR 0xC2, CHR 0xC3, CHR 0xC4, CHR 0xC5, CHR 0xC6, CHR 0xC7,
      CHR 0xC8, CHR 0xC9, CHR 0xCA, CHR 0xCB, CHR 0xCC, CHR 0xCD, CHR 0xCE, CHR 0xCF,
      CHR 0xD0, CHR 0xD1, CHR 0xD2, CHR 0xD3, CHR 0xD4, CHR 0xD5, CHR 0xD6,
      CHR 0xD8, CHR 0xD9, CHR 0xDA, CHR 0xDB, CHR 0xDC, CHR 0xDD, CHR 0xDE]"

definition lower_latin :: string where
  "lower_latin = ''abcdefghijklmnopqrstuvwxyz'' @
     [CHR 0xE0, CHR 0xE1, CHR 0xE2, CHR 0xE3, CHR 0xE4, CHR 0xE5, CHR 0xE6, CHR 0xE7,
      CHR 0xE8, CHR 0xE9, CHR 0xEA, CHR 0xEB, CHR 0xEC, CHR 0xED, CHR 0xEE, CHR 0xEF,
      CHR 0xF0, CHR 0xF1, CHR 0xF2, CHR 0xF3, CHR 0xF4, CHR 0xF5, CHR 0xF6,
      CHR 0xF8, CHR 0xF9, CHR 0xFA, CHR 0xFB, CHR 0xFC, CHR 0xFD, CHR 0xFE]"

definition lower_char :: "char \<Rightarrow> char" where
  "lower_char c =
     (case map_of (zip upper_latin lower_latin) c of
        Some l \<Rightarrow> l
      | None \<Rightarrow> c)"

definition lower :: "string \<Rightarrow> string" where
  "lower s = map lower_char s"

text \<open>\<^verbatim>\<open>s.replace(a, b)\<close> for one-character \<open>a\<close> and \<open>b\<close>.\<close>

definition replace_char :: "char \<Rightarrow> char \<Rightarrow> string \<Rightarrow> string" where
  "replace_char a b s = map (\<lambda>c. if c = a then b else c) s"

text \<open>
  \<^verbatim>\<open>get_canonical_username\<close>. The alias table \<^verbatim>\<open>CONFIGURATION.usernames_map\<close> is a
  \<^verbatim>\<open>Dict[str, Set[str]]\<close>; it is passed as an association list in the order of the
  dictionary. The keys are strings by the type of the table, so the
  \<^verbatim>\<open>filter(str.__instancecheck__, ...)\<close> keeps every key. \<^verbatim>\<open>next\<close> takes the first
  element of the generator, or the default when it is empty.
\<close>

definition get_canonical_username :: "(string \<times> string set) list \<Rightarrow> person \<Rightarrow> string" where
  "get_canonical_username usernames_map username =
     (case [key. (key, list) \<leftarrow> usernames_map, name username \<in> list] of
        key # _ \<Rightarrow> key
      | [] \<Rightarrow> replace_char CHR '' '' CHR ''-'' (lower (name username)))"

text \<open>
  \<^verbatim>\<open>ConfigData\<close>: the shows in the order of the configuration file (the attribute
  \<^verbatim>\<open>shows\<close>, named \<open>show_table\<close> here), the alias table and the names of the registry
  files that are never written again.
\<close>

record config_data =
  show_table :: "(string \<times> show_details) list"
  usernames_map :: "(string \<times> string set) list"
  data_dont_override :: "string set"

section \<open>Feed items and episodes\<close>

text \<open>
  \<^verbatim>\<open>Episode\<close> and \<^verbatim>\<open>Chapters\<close> of \<^verbatim>\<open>src/models/podcast.py\<close>, as the feed item
  carries them.
\<close>

record podcast_episode =
  display :: "string option"
  episode :: string

record podcast_chapters =
  url :: string
  type :: string

text \<open>
  Modelled from the spec: the participant model \<^verbatim>\<open>models/participant.py\<close> is not part of
  the sources. A ParticipantRecord carries the role class (host or guest), the canonical
  username, the display name, an optional homepage and an optional avatar path (section 3
  of the specification); these are the five attributes \<^verbatim>\<open>build_participants\<close> sets.
\<close>

record participant =
  type :: string
  username :: string
  title :: string
  homepage :: "string option"
  avatar :: "string option"

text \<open>
  The episode number of \<^verbatim>\<open>build_episode_file\<close> is an \<^verbatim>\<open>int\<close> on the numeric path and
  the \<^verbatim>\<open>str\<close> URL segment on the fallback path.
\<close>

datatype episode_id = EpisodeInt int | EpisodeStr string

text \<open>
  Modelled from the spec: the episode model \<^verbatim>\<open>models/episode.py\<close> is not part of the
  sources. The chapters object is kept as the validated JSON body it is built from. The
  episode record has the fields that \<^verbatim>\<open>build_episode_file\<close> passes to the constructor
  (section 3 of the specification, Episode); the six fields that are always \<^verbatim>\<open>None\<close> and
  the value and transcript payloads, which are copied from the item, are left out.
\<close>

datatype chapters = Chapters string

record episode =
  show_slug :: string
  show_name :: string
  episode :: episode_id
  episode_padded :: string
  episode_guid :: string
  title :: string
  description :: string
  date :: string
  tags :: "string list"
  hosts :: "string list"
  guests :: "string list"
  sponsors :: "string list"
  podcast_duration :: string
  podcast_file :: string
  podcast_bytes :: nat
  podcast_chapters :: "chapters option"
  jb_url :: string
  fireside_url :: string
  episode_links :: string

text \<open>
  Modelled from the spec: the feed item model \<^verbatim>\<open>models/item.py\<close> is not part of the
  sources. The record has the attributes that \<^verbatim>\<open>build_episode_file\<close> reads (section 3 of
  the specification, FeedEntry): the wrapper objects \<^verbatim>\<open>guid\<close>, \<^verbatim>\<open>itunes_subtitle\<close>,
  \<^verbatim>\<open>itunes_duration\<close>, \<^verbatim>\<open>itunes_keywords\<close> and \<^verbatim>\<open>enclosure\<close> are replaced by the
  values read from them, an absent optional element is \<open>None\<close>. The episode type is a
  string; \<^verbatim>\<open>EPISODE_TYPES\<close> of \<^verbatim>\<open>src/models/itunes.py\<close> lists the values that the
  validation of the feed admits.
\<close>

record item =
  title :: string
  link :: string
  guid :: string
  pubDate :: string
  description :: string
  content_encoded :: "string option"
  itunes_episodeType :: "string option"
  itunes_subtitle :: "string option"
  itunes_keywords :: "string list option"
  itunes_duration :: string
  enclosure_url :: string
  enclosure_length :: nat
  podcast_episode :: "podcast_episode option"
  podcast_persons :: "person list"
  podcast_chapters :: "podcast_chapters option"



section \<open>Episode numbers\<close>

definition is_digit :: "char \<Rightarrow> bool" where
  "is_digit c = (c \<in> set ''0123456789'')"

text \<open>
  \<^verbatim>\<open>str.isnumeric\<close>: the string is not empty and every character is numeric. The
  numeric characters are the ten digits, the superscripts two, three and one (code points
  178, 179 and 185) and the fractions a quarter, a half and three quarters (188 to 190).
\<close>

definition is_numeric_char :: "char \<Rightarrow> bool" where
  "is_numeric_char c =
     (c \<in> set (''0123456789'' @ [CHR 0xB2, CHR 0xB3, CHR 0xB9, CHR 0xBC, CHR 0xBD, CHR 0xBE]))"

definition isnumeric :: "string \<Rightarrow> bool" where
  "isnumeric s = (s \<noteq> [] \<and> list_all is_numeric_char s)"

text \<open>A string of decimal digits, the only numeric strings that \<^verbatim>\<open>int\<close> accepts.\<close>

definition decimal :: "string \<Rightarrow> bool" where
  "decimal s = (s \<noteq> [] \<and> list_all is_digit s)"

definition digit_val :: "char \<Rightarrow> nat" where
  "digit_val c =
     (case map_of (zip ''0123456789'' [0, 1, 2, 3, 4, 5, 6, 7, 8, 9]) c of
        Some d \<Rightarrow> d
      | None \<Rightarrow> 0)"

definition digit_char :: "nat \<Rightarrow> char" where
  "digit_char d = ''0123456789'' ! d"

definition int_of_digits :: "string \<Rightarrow> nat" where
  "int_of_digits s = foldl (\<lambda>acc c. 10 * acc + digit_val c) 0 s"

fun digits10 :: "nat \<Rightarrow> string" where
  "digits10 n = (if n < 10 then [digit_char n] else digits10 (n div 10) @ [digit_char (n mod 10)])"

declare digits10.simps [simp del]

definition format_04 :: "int \<Rightarrow> string" where
  "format_04 n =
     (if n < 0
      then CHR ''-'' # replicate (3 - length (digits10 (nat (- n)))) CHR ''0'' @ digits10 (nat (- n))
      else replicate (4 - length (digits10 (nat n))) CHR ''0'' @ digits10 (nat n))"

definition digits_then_colon :: "string \<Rightarrow> string option" where
  "digits_then_colon s =
     (if takeWhile is_digit s \<noteq> [] \<and> take 1 (dropWhile is_digit s) = '':''
      then Some (takeWhile is_digit s) else None)"

definition match_number_at :: "string \<Rightarrow> string option" where
  "match_number_at s =
     (if take 14 s = ''Pocket Office ''
      then (case digits_then_colon (drop 14 s) of
              Some ds \<Rightarrow> Some (''Pocket Office '' @ ds)
            | None \<Rightarrow> digits_then_colon s)
      else digits_then_colon s)"

fun parse_episode_number :: "string \<Rightarrow> string" where
  "parse_episode_number [] = []"
| "parse_episode_number (c # cs) =
     (case match_number_at (c # cs) of
        Some g \<Rightarrow> g
      | None \<Rightarrow> if c = CHR 0x0A then [] else parse_episode_number cs)"

definition last_segment :: "string \<Rightarrow> string" where
  "last_segment s = rev (takeWhile (\<lambda>c. c \<noteq> CHR ''/'') (rev s))"


text \<open>\<^verbatim>\<open>s.replace(a, "")\<close> for a one-character \<open>a\<close>.\<close>

definition remove_char :: "char \<Rightarrow> string \<Rightarrow> string" where
  "remove_char a s = filter (\<lambda>c. c \<noteq> a) s"

definition episode_string :: "item \<Rightarrow> string" where
  "episode_string it =
     (case podcast_episode it of
        Some pe \<Rightarrow> podcast_episode.episode pe
      | None \<Rightarrow> parse_episode_number (title it))"

text \<open>
  \<^verbatim>\<open>int(s)\<close> on a string: decimal digits with an optional sign are parsed, every other
  string raises \<^verbatim>\<open>ValueError\<close> (the white space around the number and the underscores
  between digits that Python accepts in addition are not modelled; a numeric string has
  neither).
\<close>

definition int_of_str :: "string \<Rightarrow> error + int" where
  "int_of_str s =
     (if decimal s then Inr (int (int_of_digits s))
      else if take 1 s = ''-'' \<and> decimal (drop 1 s) then Inr (- int (int_of_digits (drop 1 s)))
      else if take 1 s = ''+'' \<and> decimal (drop 1 s) then Inr (int (int_of_digits (drop 1 s)))
      else Inl ValueError)"

text \<open>
  Line 163: the episode number and its padded form. A numeric episode string is converted
  with \<^verbatim>\<open>int\<close>, which raises on a numeric string that is not decimal; any other episode
  string gives the last segment of the link for both.
\<close>

definition episode_numbers :: "item \<Rightarrow> error + episode_id \<times> string" where
  "episode_numbers it =
     (if isnumeric (episode_string it)
      then (case int_of_str (episode_string it) of
              Inl e \<Rightarrow> Inl e
            | Inr n \<Rightarrow> Inr (EpisodeInt n, format_04 n))
      else Inr (EpisodeStr (last_segment (link it)), last_segment (link it)))"

text \<open>The name of the episode file (line 165), from the padded form.\<close>

definition output_file_name :: "string \<Rightarrow> string" where
  "output_file_name episode_number_padded = remove_char CHR ''/'' episode_number_padded @ ''.md''"

section \<open>The file system and the writer\<close>

text \<open>
  A path is the list of its components, \<open>[]\<close> being the directory the paths start from,
  which always exists. The file system maps a path to a file with its content or to a
  directory. The content type is a parameter: text for episode files, bytes for avatars,
  front matter documents for the registries.
\<close>

datatype 'c node = File 'c | Dir

type_synonym 'c fs = "path \<Rightarrow> 'c node option"

definition lookup :: "'c fs \<Rightarrow> path \<Rightarrow> 'c node option" where
  "lookup fs p = (if p = [] then Some Dir else fs p)"

text \<open>\<^verbatim>\<open>Path.exists\<close>.\<close>

definition path_exists :: "'c fs \<Rightarrow> path \<Rightarrow> bool" where
  "path_exists fs p = (lookup fs p \<noteq> None)"

text \<open>
  In a file system of the operating system every proper ancestor of an entry is a
  directory.
\<close>

definition well_formed :: "'c fs \<Rightarrow> bool" where
  "well_formed fs = (\<forall>p q. fs p \<noteq> None \<longrightarrow> strict_prefix q p \<longrightarrow> lookup fs q = Some Dir)"

text \<open>
  \<^verbatim>\<open>Path.mkdir(parents=True, exist_ok=True)\<close>, on the reversed path: an existing directory
  is accepted, an existing file raises, a missing directory is created after its parent.
\<close>

fun mkdir_rev :: "'c fs \<Rightarrow> string list \<Rightarrow> error + 'c fs" where
  "mkdir_rev fs [] = Inr fs"
| "mkdir_rev fs (x # xs) =
     (case fs (rev (x # xs)) of
        Some Dir \<Rightarrow> Inr fs
      | Some (File c) \<Rightarrow> Inl OSError
      | None \<Rightarrow>
          (case mkdir_rev fs xs of
             Inl e \<Rightarrow> Inl e
           | Inr fs' \<Rightarrow> Inr (fs'(rev (x # xs) \<mapsto> Dir))))"

definition mkdir_parents :: "'c fs \<Rightarrow> path \<Rightarrow> error + 'c fs" where
  "mkdir_parents fs p = mkdir_rev fs (rev p)"

text \<open>
  \<^verbatim>\<open>open(file_path, mode)\<close> followed by \<^verbatim>\<open>file.write(content)\<close>: opening a directory
  or a path whose parent is not a directory raises; otherwise the file holds exactly the
  content afterwards.
\<close>

definition write_file :: "'c fs \<Rightarrow> path \<Rightarrow> 'c \<Rightarrow> error + 'c fs" where
  "write_file fs p c =
     (case lookup fs p of
        Some Dir \<Rightarrow> Inl OSError
      | _ \<Rightarrow>
          (case lookup fs (butlast p) of
             Some Dir \<Rightarrow> Inr (fs(p \<mapsto> File c))
           | _ \<Rightarrow> Inl OSError))"

text \<open>
  \<^verbatim>\<open>save_file\<close>. The result is the file system after the call, the log lines of the call
  and the returned value or the exception raised.
\<close>

definition save_file :: "'c fs \<Rightarrow> path \<Rightarrow> 'c \<Rightarrow> bool \<Rightarrow> ('c fs \<times> log) \<times> (error + bool)" where
  "save_file fs file_path content overwrite =
     (if \<not> overwrite \<and> path_exists fs file_path
      then ((fs, [(Warning, SkipExists file_path)]), Inr False)
      else
        (case mkdir_parents fs (butlast file_path) of
           Inl e \<Rightarrow> ((fs, []), Inl e)
         | Inr fs1 \<Rightarrow>
             (case write_file fs1 file_path content of
                Inl e \<Rightarrow> ((fs1, []), Inl e)
              | Inr fs2 \<Rightarrow> ((fs2, [(Info, Saved file_path)]), Inr True))))"

section \<open>The sponsor registry\<close>

text \<open>
  Modelled from the spec: the sponsor model \<^verbatim>\<open>models/sponsor.py\<close> is not part of the
  sources. A SponsorRecord carries a shortname and the episode of its mention (section 3
  of the specification). The episode is an optional integer: \<^verbatim>\<open>parse_sponsors\<close> reads it
  as \<^verbatim>\<open>sponsor.episode or -1\<close> and compares the registered one as a number.
\<close>

record sponsor =
  shortname :: string
  episode :: "int option"

text \<open>
  The registry \<^verbatim>\<open>SPONSORS\<close>, a dictionary from the file name of a sponsor to its record,
  kept as an association list in insertion order (the order in which the flush visits
  it). A key occurs once.
\<close>

type_synonym sponsors = "(string \<times> sponsor) list"

text \<open>\<^verbatim>\<open>int(sponsor.episode or -1)\<close>: \<^verbatim>\<open>None\<close> and \<open>0\<close> are falsy.\<close>

definition episode_or_default :: "sponsor \<Rightarrow> int" where
  "episode_or_default s =
     (case sponsor.episode s of
        None \<Rightarrow> - 1
      | Some e \<Rightarrow> if e = 0 then - 1 else e)"

text \<open>
  \<^verbatim>\<open>SPONSORS.get(key, SimpleNamespace(episode=-1)).episode\<close>, the right operand of the
  comparison. Comparing an integer with \<^verbatim>\<open>None\<close> raises \<^verbatim>\<open>TypeError\<close>.
\<close>

definition registered_episode :: "sponsors \<Rightarrow> string \<Rightarrow> error + int" where
  "registered_episode reg key =
     (case map_of reg key of
        None \<Rightarrow> Inr (- 1)
      | Some s \<Rightarrow> (case sponsor.episode s of None \<Rightarrow> Inl TypeError | Some e \<Rightarrow> Inr e))"

text \<open>
  The list comprehension of \<^verbatim>\<open>parse_sponsors\<close> (line 117): the pairs of the parsed
  dictionary whose episode is greater than the registered one, in the order of the
  dictionary. It is evaluated before the registry is updated.
\<close>

fun newer_sponsors :: "sponsors \<Rightarrow> (string \<times> sponsor) list \<Rightarrow> error + (string \<times> sponsor) list" where
  "newer_sponsors reg [] = Inr []"
| "newer_sponsors reg ((key, s) # rest) =
     (case registered_episode reg key of
        Inl e \<Rightarrow> Inl e
      | Inr r \<Rightarrow>
          (case newer_sponsors reg rest of
             Inl e \<Rightarrow> Inl e
           | Inr l \<Rightarrow> Inr (if episode_or_default s > r then (key, s) # l else l)))"

text \<open>
  \<^verbatim>\<open>dict.update\<close> with a list of pairs: a key that is present keeps its place, a new key
  goes to the end.
\<close>

definition dict_update :: "('k \<times> 'v) list \<Rightarrow> ('k \<times> 'v) list \<Rightarrow> ('k \<times> 'v) list" where
  "dict_update d kvs = foldl (\<lambda>m (k, v). AList.update k v m) d kvs"

definition sponsors_update :: "sponsors \<Rightarrow> (string \<times> sponsor) list \<Rightarrow> error + sponsors" where
  "sponsors_update reg parsed =
     (case newer_sponsors reg parsed of
        Inl e \<Rightarrow> Inl e
      | Inr l \<Rightarrow> Inr (dict_update reg l))"

text \<open>
  A sequence of updates, one per parsed episode page, in the order in which the updates
  reach the registry.
\<close>

fun sponsors_updates :: "sponsors \<Rightarrow> (string \<times> sponsor) list list \<Rightarrow> error + sponsors" where
  "sponsors_updates reg [] = Inr reg"
| "sponsors_updates reg (parsed # rest) =
     (case sponsors_update reg parsed of
        Inl e \<Rightarrow> Inl e
      | Inr reg' \<Rightarrow> sponsors_updates reg' rest)"

section \<open>Front matter documents and the registry flush\<close>

text \<open>
  The values of a YAML metadata block, as far as the scraper writes and reads them.
\<close>

datatype yval = YNull | YInt int | YStr string | YList "yval list" | YDict "(string \<times> yval) list"

text \<open>
  \<^verbatim>\<open>frontmatter.Post\<close>: the body of the document and its metadata, a dictionary kept as
  an association list in insertion order.
\<close>

record post =
  content :: string
  metadata :: "(string \<times> yval) list"

text \<open>
  What a file holds. A text file written with \<^verbatim>\<open>dumps(post)\<close> is represented by the
  document \<^verbatim>\<open>frontmatter.load\<close> reads from it, so two texts that load to the same
  document are not told apart. An episode file holds the text
  \<^verbatim>\<open>episode.get_hugo_md_file_content()\<close> of the episode it is built from (the method
  belongs to the episode model, which is not part of the sources). An avatar holds the
  bytes of the response.
\<close>

datatype file_content = Document post | Markdown episode | Bytes string

text \<open>Python truthiness of a metadata value.\<close>

definition truthy :: "yval \<Rightarrow> bool" where
  "truthy v =
     (case v of
        YNull \<Rightarrow> False
      | YInt i \<Rightarrow> i \<noteq> 0
      | YStr s \<Rightarrow> s \<noteq> []
      | YList l \<Rightarrow> l \<noteq> []
      | YDict d \<Rightarrow> d \<noteq> [])"

text \<open>
  \<^verbatim>\<open>int(v)\<close> on a metadata value: an integer is itself, a string is parsed, null, a
  list and a dictionary raise \<^verbatim>\<open>TypeError\<close>.
\<close>

definition py_int :: "yval \<Rightarrow> error + int" where
  "py_int v =
     (case v of
        YInt i \<Rightarrow> Inr i
      | YStr s \<Rightarrow> int_of_str s
      | _ \<Rightarrow> Inl TypeError)"

text \<open>The objects of the two registries.\<close>

datatype registry_object = SponsorObj sponsor | ParticipantObj participant

definition optional_str :: "string option \<Rightarrow> yval" where
  "optional_str v = (case v of None \<Rightarrow> YNull | Some s \<Rightarrow> YStr s)"

text \<open>
  \<^verbatim>\<open>obj.model_dump(mode='json')\<close>: the attributes of the model in the order of their
  declaration.
\<close>

definition model_dump :: "registry_object \<Rightarrow> (string \<times> yval) list" where
  "model_dump obj =
     (case obj of
        SponsorObj s \<Rightarrow>
          [(''shortname'', YStr (shortname s)),
           (''episode'', (case sponsor.episode s of None \<Rightarrow> YNull | Some e \<Rightarrow> YInt e))]
      | ParticipantObj p \<Rightarrow>
          [(''type'', YStr (participant.type p)),
           (''username'', YStr (username p)),
           (''title'', YStr (participant.title p)),
           (''homepage'', optional_str (homepage p)),
           (''avatar'', optional_str (avatar p))])"

text \<open>\<^verbatim>\<open>dumps(Post('', **obj.model_dump(mode='json')))\<close>: the body of the document is empty.\<close>

definition dumps_object :: "registry_object \<Rightarrow> file_content" where
  "dumps_object obj = Document \<lparr>content = [], metadata = model_dump obj\<rparr>"

text \<open>
  The validation of one attribute of \<^verbatim>\<open>Participant(**metadata)\<close>: a required string,
  and an optional string.
\<close>

definition required_str :: "(string \<times> yval) list \<Rightarrow> string \<Rightarrow> error + string" where
  "required_str md key =
     (case map_of md key of Some (YStr s) \<Rightarrow> Inr s | _ \<Rightarrow> Inl ValidationError)"

definition optional_field :: "(string \<times> yval) list \<Rightarrow> string \<Rightarrow> error + string option" where
  "optional_field md key =
     (case map_of md key of
        None \<Rightarrow> Inr None
      | Some YNull \<Rightarrow> Inr None
      | Some (YStr s) \<Rightarrow> Inr (Some s)
      | _ \<Rightarrow> Inl ValidationError)"

text \<open>
  \<^verbatim>\<open>Participant(**post_file.metadata)\<close>. The models of the repository ignore the keys
  they do not declare (\<^verbatim>\<open>ConfigDict(extra='ignore')\<close> in \<^verbatim>\<open>src/models/config.py\<close>); a
  missing or ill-typed attribute raises \<^verbatim>\<open>ValidationError\<close>.
\<close>

definition participant_of_metadata :: "(string \<times> yval) list \<Rightarrow> error + participant" where
  "participant_of_metadata md =
     (case required_str md ''type'' of
        Inl e \<Rightarrow> Inl e
      | Inr t \<Rightarrow>
     (case required_str md ''username'' of
        Inl e \<Rightarrow> Inl e
      | Inr u \<Rightarrow>
     (case required_str md ''title'' of
        Inl e \<Rightarrow> Inl e
      | Inr n \<Rightarrow>
     (case optional_field md ''homepage'' of
        Inl e \<Rightarrow> Inl e
      | Inr h \<Rightarrow>
     (case optional_field md ''avatar'' of
        Inl e \<Rightarrow> Inl e
      | Inr a \<Rightarrow>
          Inr \<lparr>type = t, username = u, title = n, homepage = h, avatar = a\<rparr>)))))"

text \<open>
  \<^verbatim>\<open>open(file_path)\<close> and \<^verbatim>\<open>load(file)\<close>: a missing path and a directory raise
  \<^verbatim>\<open>OSError\<close>, bytes that are not text raise \<^verbatim>\<open>ValueError\<close>
  (\<^verbatim>\<open>UnicodeDecodeError\<close>). Reading an episode file back is not modelled: it is taken
  to raise as well.
\<close>

definition load_post :: "file_content fs \<Rightarrow> path \<Rightarrow> error + post" where
  "load_post fs file_path =
     (case lookup fs file_path of
        Some (File (Document d)) \<Rightarrow> Inr d
      | Some (File _) \<Rightarrow> Inl ValueError
      | _ \<Rightarrow> Inl OSError)"

text \<open>
  The test of line 445 for a sponsor: \<open>Inr True\<close> when the persisted file is the latest.
  A missing or falsy persisted episode skips the comparison; comparing with a candidate
  whose episode is \<^verbatim>\<open>None\<close> raises \<^verbatim>\<open>TypeError\<close>.
\<close>

definition file_is_latest :: "post \<Rightarrow> sponsor \<Rightarrow> error + bool" where
  "file_is_latest post_file s =
     (case map_of (metadata post_file) ''episode'' of
        None \<Rightarrow> Inr False
      | Some file_ep \<Rightarrow>
          (if truthy file_ep
           then (case py_int file_ep of
                   Inl e \<Rightarrow> Inl e
                 | Inr n \<Rightarrow>
                     (case sponsor.episode s of
                        None \<Rightarrow> Inl TypeError
                      | Some e_new \<Rightarrow> Inr (n \<ge> e_new)))
           else Inr False))"

text \<open>The result of \<^verbatim>\<open>save_file\<close> with the returned flag dropped.\<close>

definition discard :: "('s \<times> log) \<times> (error + bool) \<Rightarrow> ('s \<times> log) \<times> (error + unit)" where
  "discard r = (fst r, (case snd r of Inl e \<Rightarrow> Inl e | Inr _ \<Rightarrow> Inr ()))"

text \<open>
  \<^verbatim>\<open>process_and_serialize_object\<close>. The lock is held by the only thread of the model.
\<close>

definition process_and_serialize_object ::
  "config_data \<Rightarrow> file_content fs \<Rightarrow> string \<Rightarrow> registry_object \<Rightarrow> path \<Rightarrow> bool \<Rightarrow>
     (file_content fs \<times> log) \<times> (error + unit)" where
  "process_and_serialize_object CONFIGURATION fs filename obj dest_dir overwrite =
     (let file_path = dest_dir @ [filename] in
      if path_exists fs file_path \<and> filename \<in> data_dont_override CONFIGURATION
      then ((fs, [(Warning, SkipDontOverride filename)]), Inr ())
      else if \<not> path_exists fs file_path
      then discard (save_file fs file_path (dumps_object obj) overwrite)
      else
        (case load_post fs file_path of
           Inl e \<Rightarrow> ((fs, []), Inl e)
         | Inr post_file \<Rightarrow>
             (case obj of
                SponsorObj s \<Rightarrow>
                  (case file_is_latest post_file s of
                     Inl e \<Rightarrow> ((fs, []), Inl e)
                   | Inr True \<Rightarrow> ((fs, [(Warning, SkipLatest file_path)]), Inr ())
                   | Inr False \<Rightarrow> discard (save_file fs file_path (dumps_object obj) overwrite))
              | ParticipantObj p \<Rightarrow>
                  (case participant_of_metadata
                          (dict_update (metadata post_file)
                             [(''homepage'', optional_str (homepage p)),
                              (''avatar'', optional_str (avatar p))]) of
                     Inl e \<Rightarrow> ((fs, []), Inl e)
                   | Inr merged \<Rightarrow>
                       discard (save_file fs file_path (dumps_object (ParticipantObj merged))
                                  overwrite)))))"

section \<open>The world outside and the chapters request\<close>

text \<open>
  A response of \<^verbatim>\<open>requests.get\<close>: whether its status is a success, and its body
  (\<^verbatim>\<open>response.text\<close>, \<^verbatim>\<open>response.content\<close>).
\<close>

datatype response = Response bool string

text \<open>\<^verbatim>\<open>response.raise_for_status()\<close>.\<close>

definition raise_for_status :: "response \<Rightarrow> error + unit" where
  "raise_for_status r = (case r of Response ok body \<Rightarrow> if ok then Inr () else Inl HTTPError)"

definition response_text :: "response \<Rightarrow> string" where
  "response_text r = (case r of Response ok body \<Rightarrow> body)"

text \<open>
  What the scraper asks of the network and of the libraries it parses text with, taken as
  parameters. A request either raises or returns a response; the request for chapters is
  indexed by the number of the attempt, so that a server may answer differently each time.
  \<^verbatim>\<open>chapters_valid\<close> is \<^verbatim>\<open>Chapters.model_validate_json\<close>. \<^verbatim>\<open>sponsor_parser\<close> and
  \<^verbatim>\<open>tag_parser\<close> are the runs of the parse strategies on the text of the episode page (the
  strategies are not part of the sources). \<^verbatim>\<open>get_links\<close>, \<^verbatim>\<open>get_description\<close> and
  \<^verbatim>\<open>get_plain_title\<close> stand for the functions of these names, which work on a parsed HTML
  tree or with a regular expression and may raise; \<^verbatim>\<open>find_picks\<close> is the search of
  \<^verbatim>\<open>get_picks\<close> for the picks of a description, each with its title, its link and its
  optional description. \<^verbatim>\<open>feed_items\<close> is the repair of the namespace of a fireside feed
  followed by \<^verbatim>\<open>Rss.from_xml\<close> and \<^verbatim>\<open>rss.channel.items\<close>. \<^verbatim>\<open>completion\<close> is the
  scheduling of the thread pool: the order in which \<^verbatim>\<open>as_completed\<close> yields the futures
  of a list of the given length, each named by its index in the list.
\<close>

record world =
  chapters_get :: "string \<Rightarrow> nat \<Rightarrow> error + response"
  chapters_valid :: "string \<Rightarrow> bool"
  page_get :: "string \<Rightarrow> error + response"
  sponsor_parser :: "string \<Rightarrow> show_details \<Rightarrow> episode_id \<Rightarrow> error + (string \<times> sponsor) list"
  tag_parser :: "string \<Rightarrow> show_details \<Rightarrow> error + string list"
  get_links :: "string \<Rightarrow> error + string"
  get_description :: "string \<Rightarrow> error + string"
  get_plain_title :: "string \<Rightarrow> error + string"
  find_picks :: "string \<Rightarrow> error + (string \<times> string \<times> string option) list"
  image_get :: "string \<Rightarrow> error + response"
  feed_get :: "string \<Rightarrow> error + response"
  feed_items :: "show_details \<Rightarrow> string \<Rightarrow> error + item list"
  completion :: "nat \<Rightarrow> nat list"

text \<open>
  How one pass of the loop of \<^verbatim>\<open>get_podcast_chapters\<close> ends: with \<^verbatim>\<open>break\<close>, with
  \<^verbatim>\<open>continue\<close> (carrying the value of \<^verbatim>\<open>response\<close>), with \<^verbatim>\<open>return\<close>, or with an exception
  that no clause handles.
\<close>

datatype attempt = Broke response | Again "response option" | Returned | Raised error

text \<open>
  The four \<^verbatim>\<open>except\<close> clauses, for an exception raised by the request. The variable
  \<^verbatim>\<open>response\<close> keeps the value it had.
\<close>

definition chapters_handler :: "error \<Rightarrow> response option \<Rightarrow> log \<times> attempt" where
  "chapters_handler e response =
     (if e = ChunkedEncodingError then ([(Warning, ChaptersRetry)], Again response)
      else if e = HTTPError then ([], Returned)
      else if e = AttributeError then ([], Returned)
      else if e = ValidationError then ([(Warning, ChaptersInvalid)], Returned)
      else ([], Raised e))"

text \<open>
  The body of the loop at attempt \<open>n\<close>. Without a chapters reference \<^verbatim>\<open>chapters.url\<close>
  raises \<^verbatim>\<open>AttributeError\<close>, which is handled by returning.
\<close>

definition attempt_chapters ::
  "world \<Rightarrow> podcast_chapters option \<Rightarrow> nat \<Rightarrow> response option \<Rightarrow> log \<times> attempt" where
  "attempt_chapters w chapters n response =
     (case chapters of
        None \<Rightarrow> ([], Returned)
      | Some c \<Rightarrow>
          (case chapters_get w (url c) n of
             Inl e \<Rightarrow> chapters_handler e response
           | Inr r \<Rightarrow>
               (case raise_for_status r of
                  Inl e \<Rightarrow> chapters_handler e (Some r)
                | Inr _ \<Rightarrow>
                    if response_text r = [] then ([], Again (Some r))
                    else if chapters_valid w (response_text r) then ([], Broke r)
                    else chapters_handler ValidationError (Some r))))"

text \<open>
  The loop over \<^verbatim>\<open>range(Settings.Retry_Count)\<close>; running out of attempts is
  \<open>Again response\<close>.
\<close>

fun attempts ::
  "world \<Rightarrow> podcast_chapters option \<Rightarrow> nat list \<Rightarrow> response option \<Rightarrow> log \<times> attempt" where
  "attempts w chapters [] response = ([], Again response)"
| "attempts w chapters (n # ns) response =
     (case attempt_chapters w chapters n response of
        (l, Again r) \<Rightarrow> (case attempts w chapters ns r of (l', a) \<Rightarrow> (l @ l', a))
      | (l, a) \<Rightarrow> (l, a))"

text \<open>
  \<^verbatim>\<open>Chapters(**response.json())\<close>: without a response the attribute access raises
  \<^verbatim>\<open>AttributeError\<close>, an empty body is not JSON.
\<close>

definition chapters_of_response :: "world \<Rightarrow> response option \<Rightarrow> error + chapters option" where
  "chapters_of_response w response =
     (case response of
        None \<Rightarrow> Inl AttributeError
      | Some r \<Rightarrow>
          if response_text r = [] then Inl JSONDecodeError
          else if chapters_valid w (response_text r) then Inr (Some (Chapters (response_text r)))
          else Inl ValidationError)"

text \<open>
  \<^verbatim>\<open>get_podcast_chapters\<close>: the log of the call and the value returned or the exception
  raised. The \<^verbatim>\<open>else\<close> clause of the loop logs the error, formatting \<^verbatim>\<open>chapters.url\<close>,
  and the function goes on to its last line.
\<close>

definition get_podcast_chapters ::
  "settings \<Rightarrow> world \<Rightarrow> podcast_chapters option \<Rightarrow> log \<times> (error + chapters option)" where
  "get_podcast_chapters Settings w chapters =
     (case attempts w chapters [0 ..< Retry_Count Settings] None of
        (l, Returned) \<Rightarrow> (l, Inr None)
      | (l, Raised e) \<Rightarrow> (l, Inl e)
      | (l, Broke r) \<Rightarrow> (l, chapters_of_response w (Some r))
      | (l, Again response) \<Rightarrow>
          (case chapters of
             None \<Rightarrow> (l, Inl AttributeError)
           | Some c \<Rightarrow> (l @ [(Error, ChaptersUnavailable)], chapters_of_response w response)))"

text \<open>
  The base of the examples: settings with three attempts, and a world without a network,
  where every request raises \<^verbatim>\<open>ConnectionError\<close>, no text validates, the parsers find
  nothing and the futures complete in the order of their submission.
\<close>

definition example_settings :: settings where
  "example_settings =
     \<lparr>DATA_DIR = [''data''], Overwrite_Existing = False, Retry_Count = 3, LATEST_ONLY = False,
      LATEST_ONLY_EP_LIMIT = 5, Host_Roles = [''Host''], Guest_Roles = [''Guest'']\<rparr>"

definition offline :: world where
  "offline =
     \<lparr>chapters_get = (\<lambda>u n. Inl ConnectionError),
      chapters_valid = (\<lambda>s. False),
      page_get = (\<lambda>u. Inl ConnectionError),
      sponsor_parser = (\<lambda>page d e. Inr []),
      tag_parser = (\<lambda>page d. Inr []),
      get_links = (\<lambda>s. Inr []),
      get_description = (\<lambda>s. Inr s),
      get_plain_title = (\<lambda>s. Inr s),
      find_picks = (\<lambda>s. Inr []),
      image_get = (\<lambda>u. Inl ConnectionError),
      feed_get = (\<lambda>u. Inl ConnectionError),
      feed_items = (\<lambda>d s. Inr []),
      completion = (\<lambda>n. [0 ..< n])\<rparr>"

section \<open>The episode builder\<close>

text \<open>
  What a run changes: the files below the starting directory, the two registries
  \<^verbatim>\<open>SPONSORS\<close> and \<^verbatim>\<open>PARTICIPANTS\<close> (dictionaries in insertion order) and the log. A
  file name joined to a directory is taken to be one component of the path.
\<close>

record state =
  files :: "file_content fs"
  SPONSORS :: sponsors
  PARTICIPANTS :: "(string \<times> participant) list"
  logs :: log

definition logged :: "state \<Rightarrow> log \<Rightarrow> state" where
  "logged st l = st\<lparr>logs := logs st @ l\<rparr>"

text \<open>\<^verbatim>\<open>save_file\<close> on the files of the state.\<close>

definition save :: "state \<Rightarrow> path \<Rightarrow> file_content \<Rightarrow> bool \<Rightarrow> state \<times> (error + bool)" where
  "save st file_path c overwrite =
     (case save_file (files st) file_path c overwrite of
        ((fs, l), r) \<Rightarrow> (st\<lparr>files := fs, logs := logs st @ l\<rparr>, r))"

text \<open>
  \<^verbatim>\<open>parse_sponsors\<close>: the page is requested and its status checked, the parse strategy
  runs with every exception caught, the registry is updated (line 117) and the shortnames
  are returned.
\<close>

definition parse_sponsors ::
  "world \<Rightarrow> state \<Rightarrow> string \<Rightarrow> episode_id \<Rightarrow> string \<Rightarrow> show_details \<Rightarrow> state \<times> (error + string list)" where
  "parse_sponsors w st page_url episode_number show details =
     (case page_get w page_url of
        Inl e \<Rightarrow> (st, Inl e)
      | Inr r \<Rightarrow>
          (case raise_for_status r of
             Inl e \<Rightarrow> (st, Inl e)
           | Inr _ \<Rightarrow>
               (case (case sponsor_parser w (response_text r) details episode_number of
                        Inl e \<Rightarrow> ([(Warning, SponsorParseFailed e)], [])
                      | Inr found \<Rightarrow> ([], found)) of
                  (l, found) \<Rightarrow>
                    (case sponsors_update (SPONSORS st) found of
                       Inl e \<Rightarrow> (logged st l, Inl e)
                     | Inr reg \<Rightarrow>
                         ((logged st l)\<lparr>SPONSORS := reg\<rparr>, Inr (map (\<lambda>kv. shortname (snd kv)) found))))))"

text \<open>
  \<^verbatim>\<open>parse_tags\<close>: the page is requested without a check of the status; a missing schema
  gives no tags, a failure of the parse strategy is logged and gives no tags.
\<close>

definition parse_tags :: "world \<Rightarrow> string \<Rightarrow> show_details \<Rightarrow> log \<times> (error + string list)" where
  "parse_tags w page_url details =
     (case page_get w page_url of
        Inl e \<Rightarrow> if e = MissingSchema then ([], Inr []) else ([], Inl e)
      | Inr r \<Rightarrow>
          (case tag_parser w (response_text r) details of
             Inl e \<Rightarrow> ([(Warning, TagParseFailed e)], Inr [])
           | Inr found \<Rightarrow> ([], Inr found)))"

text \<open>Line 181: the keywords of the feed, sorted, take precedence over the page.\<close>

definition episode_tags :: "world \<Rightarrow> item \<Rightarrow> show_details \<Rightarrow> log \<times> (error + string list)" where
  "episode_tags w it details =
     (case itunes_keywords it of
        Some keywords \<Rightarrow> ([], Inr (sort keywords))
      | None \<Rightarrow> parse_tags w (link it) details)"

text \<open>Line 183: the full content when it is there and not empty, else the summary.\<close>

definition links_source :: "item \<Rightarrow> string" where
  "links_source it =
     (case content_encoded it of
        Some c \<Rightarrow> if c \<noteq> [] then c else item.description it
      | None \<Rightarrow> item.description it)"

text \<open>\<^verbatim>\<open>episode_links.replace('****', '**CALL 1-774-462-5667**')\<close>.\<close>

fun replace_stars :: "string \<Rightarrow> string" where
  "replace_stars (a # b # c # d # rest) =
     (if [a, b, c, d] = ''****'' then ''**CALL 1-774-462-5667**'' @ replace_stars rest
      else a # replace_stars (b # c # d # rest))"
| "replace_stars s = s"

text \<open>Lines 186 to 190, the patch for the phone number of one show.\<close>

definition launch_patch :: "string \<Rightarrow> string \<Rightarrow> string" where
  "launch_patch show links =
     (if show = ''the-launch''
      then (if take 4 links = ''****'' then replace_stars links
            else ''**CALL 1-774-462-5667**'' @ [CHR 0x0A, CHR 0x0A] @ links)
      else links)"

text \<open>
  Line 199: the subtitle of the feed when the item has one, else the description cleaned
  by \<^verbatim>\<open>get_description\<close>.
\<close>

definition episode_description :: "world \<Rightarrow> item \<Rightarrow> error + string" where
  "episode_description w it =
     (case itunes_subtitle it of
        Some subtitle \<Rightarrow> Inr subtitle
      | None \<Rightarrow> get_description w (item.description it))"

text \<open>\<^verbatim>\<open>person.role in roles\<close>.\<close>

definition has_role :: "string list \<Rightarrow> person \<Rightarrow> bool" where
  "has_role roles p = (case role p of None \<Rightarrow> False | Some r \<Rightarrow> r \<in> set roles)"

text \<open>Lines 202 and 203: the sorted canonical usernames of the persons with one of the roles.\<close>

definition usernames_with :: "config_data \<Rightarrow> string list \<Rightarrow> person list \<Rightarrow> string list" where
  "usernames_with CONFIGURATION roles persons =
     sort (map (get_canonical_username (usernames_map CONFIGURATION)) (filter (has_role roles) persons))"

text \<open>\<^verbatim>\<open>str\<close> of an episode number.\<close>

definition str_of_episode :: "episode_id \<Rightarrow> string" where
  "str_of_episode n =
     (case n of
        EpisodeInt i \<Rightarrow> if i < 0 then CHR ''-'' # digits10 (nat (- i)) else digits10 (nat i)
      | EpisodeStr s \<Rightarrow> s)"

text \<open>Lines 223 and 224, the patch for the host of one show.\<close>

definition default_host :: "string \<Rightarrow> episode \<Rightarrow> episode" where
  "default_host show ep =
     (if show = ''this-week-in-bitcoin'' \<and> length (hosts ep) = 0 then ep\<lparr>hosts := [''chris'']\<rparr> else ep)"

text \<open>
  Lines 181 to 224: the episode is assembled from the item. The arguments of the
  constructor are evaluated in the order in which they are written.
\<close>

definition make_episode ::
  "settings \<Rightarrow> config_data \<Rightarrow> world \<Rightarrow> item \<Rightarrow> string \<Rightarrow> show_details \<Rightarrow>
     episode_id \<times> string \<Rightarrow> string list \<Rightarrow> log \<times> (error + episode)" where
  "make_episode Settings CONFIGURATION w it show details numbers found =
     (case episode_tags w it details of
        (l1, Inl e) \<Rightarrow> (l1, Inl e)
      | (l1, Inr keywords) \<Rightarrow>
     (case get_links w (links_source it) of
        Inl e \<Rightarrow> (l1, Inl e)
      | Inr links \<Rightarrow>
     (case get_plain_title w (item.title it) of
        Inl e \<Rightarrow> (l1, Inl e)
      | Inr plain \<Rightarrow>
     (case episode_description w it of
        Inl e \<Rightarrow> (l1, Inl e)
      | Inr descr \<Rightarrow>
     (case get_podcast_chapters Settings w (item.podcast_chapters it) of
        (l2, Inl e) \<Rightarrow> (l1 @ l2, Inl e)
      | (l2, Inr ch) \<Rightarrow>
          (l1 @ l2,
           Inr (default_host show
             \<lparr>show_slug = show,
              show_name = show_details.name details,
              episode = fst numbers,
              episode_padded = snd numbers,
              episode_guid = guid it,
              title = plain,
              description = descr,
              date = pubDate it,
              tags = keywords,
              hosts = usernames_with CONFIGURATION (Host_Roles Settings) (podcast_persons it),
              guests = usernames_with CONFIGURATION (Guest_Roles Settings) (podcast_persons it),
              sponsors = found,
              podcast_duration = itunes_duration it,
              podcast_file = enclosure_url it,
              podcast_bytes = enclosure_length it,
              podcast_chapters = ch,
              jb_url = show_details.jb_url details @ ''/'' @ str_of_episode (fst numbers),
              fireside_url = link it,
              episode_links = launch_patch show links\<rparr>)))))))"

text \<open>
  The name of the file of a pick: the title in lower case, blanks as hyphens, without the
  characters that a file name cannot have.
\<close>

definition pick_file_name :: "string \<Rightarrow> string" where
  "pick_file_name t =
     filter (\<lambda>c. c \<notin> set [CHR 0x5C, CHR ''/'', CHR '':'', CHR ''*'', CHR ''?'', CHR 0x22,
                            CHR ''<'', CHR ''>'', CHR ''|''])
       (replace_char CHR '' '' CHR ''-'' (lower t)) @ ''.yaml''"

text \<open>
  Modelled from the spec: the pick model \<^verbatim>\<open>models/pick.py\<close> is not part of the sources.
  The document of a pick holds the four attributes \<^verbatim>\<open>get_picks\<close> sets.
\<close>

definition pick_document ::
  "show_details \<Rightarrow> string \<Rightarrow> episode_id \<Rightarrow> string \<times> string \<times> string option \<Rightarrow> file_content" where
  "pick_document details show episode_number pick =
     (case pick of
        (t, target, descr) \<Rightarrow>
          Document
            \<lparr>content = [],
             metadata =
               [(''title'', YStr t), (''url'', YStr target), (''description'', optional_str descr),
                (''shows'',
                 YList [YDict [(''show'', YStr (show_details.name details)),
                               (''episode'',
                                (case episode_number of EpisodeInt i \<Rightarrow> YInt i | EpisodeStr s \<Rightarrow> YStr s)),
                               (''slug'', YStr show)]])]\<rparr>)"

text \<open>The loop of \<^verbatim>\<open>get_picks\<close>: every pick is written, an existing file is replaced.\<close>

fun save_picks ::
  "settings \<Rightarrow> show_details \<Rightarrow> string \<Rightarrow> episode_id \<Rightarrow> state \<Rightarrow>
     (string \<times> string \<times> string option) list \<Rightarrow> state \<times> (error + unit)" where
  "save_picks Settings details show episode_number st [] = (st, Inr ())"
| "save_picks Settings details show episode_number st (pick # rest) =
     (case save st (DATA_DIR Settings @ [''data'', ''picks'', pick_file_name (fst pick)])
             (pick_document details show episode_number pick) True of
        (st1, Inl e) \<Rightarrow> (st1, Inl e)
      | (st1, Inr _) \<Rightarrow> save_picks Settings details show episode_number st1 rest)"

definition get_picks ::
  "settings \<Rightarrow> world \<Rightarrow> state \<Rightarrow> string \<Rightarrow> episode_id \<Rightarrow> string \<Rightarrow> show_details \<Rightarrow>
     state \<times> (error + unit)" where
  "get_picks Settings w st descr episode_number show details =
     (case find_picks w descr of
        Inl e \<Rightarrow> (st, Inl e)
      | Inr picks \<Rightarrow> save_picks Settings details show episode_number st picks)"

text \<open>
  \<^verbatim>\<open>save_avatar_img\<close>, with the name of the file below \<^verbatim>\<open>static/images/people\<close>. Every
  exception is caught and logged; after the writer returned the saving is logged again.
\<close>

definition save_avatar_img :: "settings \<Rightarrow> world \<Rightarrow> state \<Rightarrow> string \<Rightarrow> string \<Rightarrow> state" where
  "save_avatar_img Settings w st img_url file_name =
     (let full_filepath = DATA_DIR Settings @ [''static'', ''images'', ''people'', file_name] in
      if path_exists (files st) full_filepath
      then logged st [(Warning, AvatarExists full_filepath)]
      else
        (case image_get w img_url of
           Inl e \<Rightarrow> logged st [(Error, AvatarFailed e)]
         | Inr r \<Rightarrow>
             (case raise_for_status r of
                Inl e \<Rightarrow> logged st [(Error, AvatarFailed e)]
              | Inr _ \<Rightarrow>
                  (case save st full_filepath (Bytes (response_text r)) False of
                     (st1, Inl e) \<Rightarrow> logged st1 [(Error, AvatarFailed e)]
                   | (st1, Inr _) \<Rightarrow> logged st1 [(Info, Saved full_filepath)]))))"

text \<open>\<^verbatim>\<open>str(participant.img).split(".")[-1]\<close>.\<close>

definition extension :: "string \<Rightarrow> string" where
  "extension s = rev (takeWhile (\<lambda>c. c \<noteq> CHR ''.'') (rev s))"

text \<open>The body of the loop of \<^verbatim>\<open>build_participants\<close> for one person.\<close>

definition register_participant :: "settings \<Rightarrow> config_data \<Rightarrow> world \<Rightarrow> state \<Rightarrow> person \<Rightarrow> state" where
  "register_participant Settings CONFIGURATION w st p =
     (let canonical_username = get_canonical_username (usernames_map CONFIGURATION) p;
          st1 = (case img p of
                   Some i \<Rightarrow> save_avatar_img Settings w st i (canonical_username @ ''.'' @ extension i)
                 | None \<Rightarrow> st)
      in st1\<lparr>PARTICIPANTS :=
               dict_update (PARTICIPANTS st1)
                 [(canonical_username @ ''.md'',
                   \<lparr>type = (if has_role (Host_Roles Settings) p then ''host'' else ''guest''),
                    username = canonical_username,
                    title = name p,
                    homepage = (case href p of
                                  Some h \<Rightarrow> if h \<noteq> [] then Some h else None
                                | None \<Rightarrow> None),
                    avatar = (case img p of
                                Some i \<Rightarrow> Some (''/images/people/'' @ canonical_username @ ''.'' @ extension i)
                              | None \<Rightarrow> None)\<rparr>)]\<rparr>)"

definition build_participants ::
  "settings \<Rightarrow> config_data \<Rightarrow> world \<Rightarrow> state \<Rightarrow> person list \<Rightarrow> state" where
  "build_participants Settings CONFIGURATION w st participants =
     foldl (register_participant Settings CONFIGURATION w) st
       (filter (has_role (Host_Roles Settings @ Guest_Roles Settings)) participants)"

text \<open>The path of the episode file (line 165).\<close>

definition output_file :: "settings \<Rightarrow> string \<Rightarrow> string \<Rightarrow> path" where
  "output_file Settings show episode_number_padded =
     DATA_DIR Settings @ [''content'', ''show'', show, output_file_name episode_number_padded]"

text \<open>
  Lines 181 to 229 of \<^verbatim>\<open>build_episode_file\<close>, with the sponsors found: the episode is
  assembled, the picks are written, the participants registered and the episode file
  written.
\<close>

definition write_episode ::
  "settings \<Rightarrow> config_data \<Rightarrow> world \<Rightarrow> item \<Rightarrow> string \<Rightarrow> show_details \<Rightarrow>
     episode_id \<times> string \<Rightarrow> state \<Rightarrow> string list \<Rightarrow> state \<times> (error + unit)" where
  "write_episode Settings CONFIGURATION w it show details numbers st found =
     (case make_episode Settings CONFIGURATION w it show details numbers found of
        (l, Inl e) \<Rightarrow> (logged st l, Inl e)
      | (l, Inr ep) \<Rightarrow>
          (case get_picks Settings w (logged st l) (item.description it) (fst numbers) show details of
             (st1, Inl e) \<Rightarrow> (st1, Inl e)
           | (st1, Inr _) \<Rightarrow>
               (case save (build_participants Settings CONFIGURATION w st1 (podcast_persons it))
                       (output_file Settings show (snd numbers)) (Markdown ep)
                       (if output_file_name (snd numbers) \<in> dont_override details then False
                        else Overwrite_Existing Settings) of
                  (st2, Inl e) \<Rightarrow> (st2, Inl e)
                | (st2, Inr _) \<Rightarrow> (st2, Inr ()))))"

text \<open>
  \<^verbatim>\<open>build_episode_file\<close>: the state after the call and whether it returned or raised.
\<close>

definition build_episode_file ::
  "settings \<Rightarrow> config_data \<Rightarrow> world \<Rightarrow> item \<Rightarrow> string \<Rightarrow> show_details \<Rightarrow> state \<Rightarrow>
     state \<times> (error + unit)" where
  "build_episode_file Settings CONFIGURATION w it show details st =
     (if itunes_episodeType it = Some ''bonus''
      then (logged st [(Warning, SkipBonus (item.title it))], Inr ())
      else
        (case episode_numbers it of
           Inl e \<Rightarrow> (st, Inl e)
         | Inr numbers \<Rightarrow>
             if \<not> Overwrite_Existing Settings \<and>
                path_exists (files st) (output_file Settings show (snd numbers))
             then (logged st [(Warning, SkipEpisodeExists (output_file Settings show (snd numbers)))],
                   Inr ())
             else
               (case parse_sponsors w st (link it) (fst numbers) show details of
                  (st1, Inl e) \<Rightarrow>
                    if e = HTTPError then (logged st1 [(Error, SkipEpisodePage e)], Inr ())
                    else if e = MissingSchema
                    then write_episode Settings CONFIGURATION w it show details numbers st1 []
                    else (st1, Inl e)
                | (st1, Inr found) \<Rightarrow>
                    write_episode Settings CONFIGURATION w it show details numbers st1 found)))"

section \<open>The run\<close>

text \<open>
  The tasks submitted to the executor. Every task runs, whatever the others did (leaving
  the \<^verbatim>\<open>with\<close> block waits for the tasks that are left), and the result of each is kept
  in its future. The tasks are taken to run one after the other in the order of their
  submission: the interleaving of the threads of the pool is not modelled, only the order
  in which the futures are waited for (\<^verbatim>\<open>completion\<close>).
\<close>

fun run_tasks ::
  "('a \<Rightarrow> state \<Rightarrow> state \<times> (error + unit)) \<Rightarrow> 'a list \<Rightarrow> state \<Rightarrow> state \<times> (error + unit) list" where
  "run_tasks task [] st = (st, [])"
| "run_tasks task (x # xs) st =
     (case task x st of
        (st1, r) \<Rightarrow> (case run_tasks task xs st1 of (st2, rs) \<Rightarrow> (st2, r # rs)))"

text \<open>
  The loop over \<^verbatim>\<open>as_completed(futures)\<close> calling \<^verbatim>\<open>future.result()\<close>, which raises the
  exception of the task again: the first exception met ends the loop. The futures are
  taken in the order of their completion, given as the list of their indices; an index
  that names no future is passed over.
\<close>

definition drain :: "nat list \<Rightarrow> (error + unit) list \<Rightarrow> error + unit" where
  "drain order rs =
     (case [e. Inl e \<leftarrow> map (\<lambda>i. rs ! i) (filter (\<lambda>i. i < length rs) order)] of
        [] \<Rightarrow> Inr ()
      | e # _ \<Rightarrow> Inl e)"

text \<open>One task of a flush: \<^verbatim>\<open>process_and_serialize_object\<close> on the files of the state.\<close>

definition flush_object ::
  "settings \<Rightarrow> config_data \<Rightarrow> path \<Rightarrow> string \<times> registry_object \<Rightarrow> state \<Rightarrow> state \<times> (error + unit)" where
  "flush_object Settings CONFIGURATION dest_dir entry st =
     (case process_and_serialize_object CONFIGURATION (files st) (fst entry) (snd entry) dest_dir
             (Overwrite_Existing Settings) of
        ((fs, l), r) \<Rightarrow> (st\<lparr>files := fs, logs := logs st @ l\<rparr>, r))"

text \<open>\<^verbatim>\<open>save_sponsors\<close>: the registry is cleared when no task raised.\<close>

definition save_sponsors ::
  "settings \<Rightarrow> config_data \<Rightarrow> world \<Rightarrow> state \<Rightarrow> state \<times> (error + unit)" where
  "save_sponsors Settings CONFIGURATION w st =
     (case run_tasks (flush_object Settings CONFIGURATION (DATA_DIR Settings @ [''content'', ''sponsors'']))
             (map (\<lambda>kv. (fst kv, SponsorObj (snd kv))) (SPONSORS st))
             (logged st [(Info, Banner ''Saving the sponsors found in episodes'')]) of
        (st1, rs) \<Rightarrow>
          (case drain (completion w (length rs)) rs of
             Inl e \<Rightarrow> (st1, Inl e)
           | Inr _ \<Rightarrow>
               ((logged st1 [(Info, Banner ''Finished saving sponsors'')])\<lparr>SPONSORS := []\<rparr>, Inr ())))"

text \<open>\<^verbatim>\<open>save_participants\<close>.\<close>

definition save_participants ::
  "settings \<Rightarrow> config_data \<Rightarrow> world \<Rightarrow> state \<Rightarrow> state \<times> (error + unit)" where
  "save_participants Settings CONFIGURATION w st =
     (case run_tasks (flush_object Settings CONFIGURATION (DATA_DIR Settings @ [''content'', ''people'']))
             (map (\<lambda>kv. (fst kv, ParticipantObj (snd kv))) (PARTICIPANTS st))
             (logged st [(Info, Banner ''Saving the participants found in episodes'')]) of
        (st1, rs) \<Rightarrow>
          (case drain (completion w (length rs)) rs of
             Inl e \<Rightarrow> (st1, Inl e)
           | Inr _ \<Rightarrow>
               ((logged st1 [(Info, Banner ''Finished saving participants'')])\<lparr>PARTICIPANTS := []\<rparr>,
                Inr ())))"

text \<open>
  The items that are submitted (lines 492 to 496): all of them, or the first
  \<^verbatim>\<open>LATEST_ONLY_EP_LIMIT\<close> with a debug line when there are more.
\<close>

definition submitted :: "settings \<Rightarrow> item list \<Rightarrow> log \<times> item list" where
  "submitted Settings items =
     (if LATEST_ONLY Settings \<and> LATEST_ONLY_EP_LIMIT Settings < length items
      then ([(Debug, LatestOnlyLimit (LATEST_ONLY_EP_LIMIT Settings))],
            take (LATEST_ONLY_EP_LIMIT Settings) items)
      else ([], items))"

text \<open>
  Lines 489 to 501, for the items of a feed: the build tasks of the items that are
  submitted, run from the state the show starts with.
\<close>

definition build_tasks ::
  "settings \<Rightarrow> config_data \<Rightarrow> world \<Rightarrow> string \<Rightarrow> show_details \<Rightarrow> item list \<Rightarrow> state \<Rightarrow>
     state \<times> (error + unit) list" where
  "build_tasks Settings CONFIGURATION w show show_config items st =
     run_tasks (\<lambda>it. build_episode_file Settings CONFIGURATION w it show show_config)
       (snd (submitted Settings items)) (logged st (fst (submitted Settings items)))"

text \<open>
  Lines 489 to 508: the build tasks run, the drain raises the first exception of a task
  that it meets, and only after the drain the two registries are flushed.
\<close>

definition build_and_flush ::
  "settings \<Rightarrow> config_data \<Rightarrow> world \<Rightarrow> string \<Rightarrow> show_details \<Rightarrow> item list \<Rightarrow> state \<Rightarrow>
     state \<times> (error + unit)" where
  "build_and_flush Settings CONFIGURATION w show show_config items st =
     (case build_tasks Settings CONFIGURATION w show show_config items st of
        (st1, rs) \<Rightarrow>
          (case drain (completion w (length rs)) rs of
             Inl e \<Rightarrow> (st1, Inl e)
           | Inr _ \<Rightarrow>
               (case save_sponsors Settings CONFIGURATION w st1 of
                  (st2, Inl e) \<Rightarrow> (st2, Inl e)
                | (st2, Inr _) \<Rightarrow> save_participants Settings CONFIGURATION w st2)))"

text \<open>
  The body of the loop of \<^verbatim>\<open>main\<close> for one show. A feed that fails the validation is
  logged and the show left out; every other exception ends \<^verbatim>\<open>main\<close>.
\<close>

definition process_show ::
  "settings \<Rightarrow> config_data \<Rightarrow> world \<Rightarrow> state \<Rightarrow> string \<times> show_details \<Rightarrow> state \<times> (error + unit)" where
  "process_show Settings CONFIGURATION w st entry =
     (case feed_get w (show_rss (snd entry)) of
        Inl e \<Rightarrow> (st, Inl e)
      | Inr response \<Rightarrow>
          (case feed_items w (snd entry) (response_text response) of
             Inl e \<Rightarrow>
               if e = ValidationError then (logged st [(Error, FeedInvalid)], Inr ()) else (st, Inl e)
           | Inr items \<Rightarrow>
               build_and_flush Settings CONFIGURATION w (fst entry) (snd entry) items st))"

fun process_shows ::
  "settings \<Rightarrow> config_data \<Rightarrow> world \<Rightarrow> (string \<times> show_details) list \<Rightarrow> state \<Rightarrow> state \<times> (error + unit)" where
  "process_shows Settings CONFIGURATION w [] st = (st, Inr ())"
| "process_shows Settings CONFIGURATION w (entry # rest) st =
     (case process_show Settings CONFIGURATION w st entry of
        (st1, Inl e) \<Rightarrow> (st1, Inl e)
      | (st1, Inr _) \<Rightarrow> process_shows Settings CONFIGURATION w rest st1)"

text \<open>\<^verbatim>\<open>main\<close>, with the configuration read from \<^verbatim>\<open>config.yml\<close> as a parameter.\<close>

definition main :: "settings \<Rightarrow> config_data \<Rightarrow> world \<Rightarrow> state \<Rightarrow> state \<times> (error + unit)" where
  "main Settings CONFIGURATION w st = process_shows Settings CONFIGURATION w (show_table CONFIGURATION) st"

text \<open>
  Lines 511 to 519: the script. It ends with the exit status 0, after the line that
  reports the end of the run, or with the exception that \<^verbatim>\<open>main\<close> raised.
\<close>

definition script :: "settings \<Rightarrow> config_data \<Rightarrow> world \<Rightarrow> state \<Rightarrow> state \<times> (error + nat)" where
  "script Settings CONFIGURATION w st =
     (case main Settings CONFIGURATION w (logged st [(Info, Banner ''SCRAPER STARTED!'')]) of
        (st1, Inl e) \<Rightarrow> (st1, Inl e)
      | (st1, Inr _) \<Rightarrow> (logged st1 [(Success, Banner ''ALL DONE :)'')], Inr 0))"

section \<open>A show for the examples\<close>



definition empty_state :: state where
  "empty_state = \<lparr>files = Map.empty, SPONSORS = [], PARTICIPANTS = [], logs = []\<rparr>"

definition example_item :: item where
  "example_item =
     \<lparr>title = ''1: Hello'', link = ''https://show.example/1'', guid = ''guid-1'',
      pubDate = ''2024-01-01'', description = ''Hello.'', content_encoded = None,
      itunes_episodeType = Some ''Full'', itunes_subtitle = None,
      itunes_keywords = Some [''linux''], itunes_duration = ''10:00'',
      enclosure_url = ''https://cdn.example/1.mp3'', enclosure_length = 100,
      podcast_episode = Some \<lparr>display = None, episode = ''1''\<rparr>, podcast_persons = [],
      podcast_chapters = None\<rparr>"



definition second_item :: item where
  "second_item =
     example_item
       \<lparr>title := ''2: Again'', link := ''https://show.example/2'', guid := ''guid-2'',
        podcast_episode := Some \<lparr>display = None, episode = ''2''\<rparr>\<rparr>"

definition flaky :: world where
  "flaky =
     offline
       \<lparr>page_get := (\<lambda>u. if u = ''https://show.example/1'' then Inl ConnectionError
                          else Inr (Response True ''page'')),
        sponsor_parser := (\<lambda>page d e. Inr [(''acme.com-demo.md'', \<lparr>shortname = ''acme.com'', episode = Some 2\<rparr>)]),
        feed_get := (\<lambda>u. Inr (Response True ''feed'')),
        feed_items := (\<lambda>d s. Inr [example_item, second_item])\<rparr>"

text \<open>
  The episode that the builder assembles from the second item in that world, and the
  state of a run after the line that reports its start.
\<close>

definition second_episode :: episode where
  "second_episode =
     \<lparr>show_slug = ''demo'', show_name = ''Demo Show'', episode = EpisodeInt 2,
      episode_padded = ''0002'', episode_guid = ''guid-2'', title = ''2: Again'',
      description = ''Hello.'', date = ''2024-01-01'', tags = [''linux''], hosts = [],
      guests = [], sponsors = [''acme.com''], podcast_duration = ''10:00'',
      podcast_file = ''https://cdn.example/1.mp3'', podcast_bytes = 100,
      podcast_chapters = None, jb_url = ''https://jb.example/show/demo/2'',
      fireside_url = ''https://show.example/2'', episode_links = []\<rparr>"

definition started_state :: state where
  "started_state = logged empty_state [(Info, Banner ''SCRAPER STARTED!'')]"

text \<open>
  The state in which that run ends: the episode file of the second item is written and
  its sponsor registered, no file of a sponsor is written and the registry is not cleared.
\<close>

definition stopped_state :: state where
  "stopped_state =
     \<lparr>files =
        [[''data''] \<mapsto> Dir, [''data'', ''content''] \<mapsto> Dir,
         [''data'', ''content'', ''show''] \<mapsto> Dir,
         [''data'', ''content'', ''show'', ''demo''] \<mapsto> Dir,
         [''data'', ''content'', ''show'', ''demo'', ''0002.md''] \<mapsto> File (Markdown second_episode)],
      SPONSORS = [(''acme.com-demo.md'', \<lparr>shortname = ''acme.com'', episode = Some 2\<rparr>)],
      PARTICIPANTS = [],
      logs = [(Info, Banner ''SCRAPER STARTED!''),
              (Info, Saved [''data'', ''content'', ''show'', ''demo'', ''0002.md''])]\<rparr>"

section \<open>Properties of canonical usernames\<close>

lemma upper_codes:
  "map of_char upper_latin = [65 ..< 91] @ [192 ..< 215] @ [216 ..< (223 :: nat)]"
  by (simp add: upper_latin_def)

lemma lower_codes:
  "map of_char lower_latin = map (\<lambda>n. n + 32) ([65 ..< 91] @ [192 ..< 215] @ [216 ..< (223 :: nat)])"
  by (simp add: lower_latin_def)

lemma in_upper_codes:
  "(n :: nat) \<in> set ([65 ..< 91] @ [192 ..< 215] @ [216 ..< 223]) \<longleftrightarrow>
     (65 \<le> n \<and> n \<le> 90 \<or> 192 \<le> n \<and> n \<le> 222 \<and> n \<noteq> 215)"
  by (simp only: set_append set_upt Un_iff atLeastLessThan_iff) arith

lemma upper_latin_distinct: "distinct upper_latin"
proof -
  have "distinct (map (of_char :: char \<Rightarrow> nat) upper_latin)"
    by (simp only: upper_codes) simp
  then show ?thesis by (simp add: distinct_map)
qed

lemma latin_lengths: "length upper_latin = length lower_latin"
  by (simp add: upper_latin_def lower_latin_def)

text \<open>
  The code point of the lower-case form: 32 more for the capital letters, the code point
  itself for every other character.
\<close>

lemma lower_char_code:
  "(of_char (lower_char c) :: nat) =
     (if 65 \<le> (of_char c :: nat) \<and> (of_char c :: nat) \<le> 90 \<or>
         192 \<le> (of_char c :: nat) \<and> (of_char c :: nat) \<le> 222 \<and> (of_char c :: nat) \<noteq> 215
      then of_char c + 32 else of_char c)"
proof (cases "c \<in> set upper_latin")
  case True
  then obtain i where i: "i < length upper_latin" and c: "c = upper_latin ! i"
    by (auto simp: in_set_conv_nth)
  have il: "i < length lower_latin" using i latin_lengths by simp
  have "map_of (zip upper_latin lower_latin) (upper_latin ! i) = Some (lower_latin ! i)"
    using latin_lengths upper_latin_distinct il by (rule map_of_zip_nth)
  then have lc: "lower_char c = lower_latin ! i" by (simp add: lower_char_def c)
  have "(of_char (lower_latin ! i) :: nat) = map of_char lower_latin ! i"
    using il by simp
  also have "\<dots> = map (\<lambda>n. n + 32) (map of_char upper_latin) ! i"
    by (simp only: lower_codes upper_codes)
  also have "\<dots> = of_char (upper_latin ! i) + 32" using i by simp
  finally have "(of_char (lower_latin ! i) :: nat) = of_char (upper_latin ! i) + 32" .
  then have shift: "(of_char (lower_char c) :: nat) = of_char c + 32"
    by (simp only: lc c [symmetric])
  have "(of_char c :: nat) \<in> set (map of_char upper_latin)" using True by simp
  then have "(of_char c :: nat) \<in> set ([65 ..< 91] @ [192 ..< 215] @ [216 ..< 223])"
    unfolding upper_codes .
  then have "65 \<le> (of_char c :: nat) \<and> (of_char c :: nat) \<le> 90 \<or>
         192 \<le> (of_char c :: nat) \<and> (of_char c :: nat) \<le> 222 \<and> (of_char c :: nat) \<noteq> 215"
    unfolding in_upper_codes .
  then show ?thesis using shift by simp
next
  case False
  have "map_of (zip upper_latin lower_latin) c = None"
    using False latin_lengths by (simp add: map_of_zip_is_None)
  then have same: "lower_char c = c" by (simp add: lower_char_def)
  have "(of_char c :: nat) \<notin> set (map of_char upper_latin)"
  proof
    assume "(of_char c :: nat) \<in> set (map of_char upper_latin)"
    then obtain d where "d \<in> set upper_latin" "(of_char d :: nat) = of_char c" by auto
    then show False using False by simp
  qed
  then have "(of_char c :: nat) \<notin> set ([65 ..< 91] @ [192 ..< 215] @ [216 ..< 223])"
    unfolding upper_codes .
  then have "\<not> (65 \<le> (of_char c :: nat) \<and> (of_char c :: nat) \<le> 90 \<or>
         192 \<le> (of_char c :: nat) \<and> (of_char c :: nat) \<le> 222 \<and> (of_char c :: nat) \<noteq> 215)"
    unfolding in_upper_codes .
  then show ?thesis using same by simp
qed

lemma space_code: "c = CHR '' '' \<longleftrightarrow> (of_char c :: nat) = 32"
proof -
  have "(of_char CHR '' '' :: nat) = 32" by simp
  then show ?thesis by (metis of_char_eq_iff)
qed

lemma hyphen_code: "(of_char CHR ''-'' :: nat) = 45"
  by simp

lemma lower_char_space: "lower_char c = CHR '' '' \<longleftrightarrow> c = CHR '' ''"
proof -
  have "lower_char c = CHR '' '' \<longleftrightarrow> (of_char (lower_char c) :: nat) = 32" by (rule space_code)
  also have "\<dots> \<longleftrightarrow> (of_char c :: nat) = 32" by (simp add: lower_char_code)
  also have "\<dots> \<longleftrightarrow> c = CHR '' ''" by (rule space_code [symmetric])
  finally show ?thesis .
qed

lemma slug_codes:
  "map of_char (replace_char CHR '' '' CHR ''-'' (lower s)) =
     map (\<lambda>c. if (of_char c :: nat) = 32 then (45 :: nat)
              else if 65 \<le> (of_char c :: nat) \<and> (of_char c :: nat) \<le> 90 \<or>
                      192 \<le> (of_char c :: nat) \<and> (of_char c :: nat) \<le> 222 \<and> (of_char c :: nat) \<noteq> 215
              then of_char c + 32 else of_char c) s"
proof (induction s)
  case Nil
  show ?case by (simp add: replace_char_def lower_def)
next
  case (Cons c s)
  have tl: "map of_char (replace_char CHR '' '' CHR ''-'' (lower s)) =
      map (\<lambda>c. if (of_char c :: nat) = 32 then (45 :: nat)
              else if 65 \<le> (of_char c :: nat) \<and> (of_char c :: nat) \<le> 90 \<or>
                      192 \<le> (of_char c :: nat) \<and> (of_char c :: nat) \<le> 222 \<and> (of_char c :: nat) \<noteq> 215
              then of_char c + 32 else of_char c) s"
    by (rule Cons.IH)
  have hd: "(of_char (if lower_char c = CHR '' '' then CHR ''-'' else lower_char c) :: nat) =
      (if (of_char c :: nat) = 32 then (45 :: nat)
       else if 65 \<le> (of_char c :: nat) \<and> (of_char c :: nat) \<le> 90 \<or>
               192 \<le> (of_char c :: nat) \<and> (of_char c :: nat) \<le> 222 \<and> (of_char c :: nat) \<noteq> 215
       then of_char c + 32 else of_char c)"
  proof (cases "c = CHR '' ''")
    case True
    then show ?thesis by (simp add: lower_char_space)
  next
    case False
    then have "(of_char c :: nat) \<noteq> 32" by (simp add: space_code)
    then show ?thesis using False by (simp add: lower_char_space lower_char_code)
  qed
  have "replace_char CHR '' '' CHR ''-'' (lower (c # s)) =
      (if lower_char c = CHR '' '' then CHR ''-'' else lower_char c) #
        replace_char CHR '' '' CHR ''-'' (lower s)"
    by (simp add: replace_char_def lower_def)
  then show ?case using tl hd by (simp del: of_char_Char)
qed

lemma alias_keys_nil:
  "\<forall>x \<in> set m. n \<notin> snd x \<Longrightarrow> [key. (key, list) \<leftarrow> m, n \<in> list] = []"
  by (induction m) auto

lemma alias_keys_first:
  assumes "i < length m" "n \<in> snd (m ! i)" "\<forall>j < i. n \<notin> snd (m ! j)"
  shows "\<exists>rest. [key. (key, list) \<leftarrow> m, n \<in> list] = fst (m ! i) # rest"
proof -
  have split: "m = take i m @ m ! i # drop (Suc i) m"
    using assms(1) by (rule id_take_nth_drop)
  have "\<forall>x \<in> set (take i m). n \<notin> snd x"
  proof
    fix x assume "x \<in> set (take i m)"
    then obtain j where "j < length (take i m)" "take i m ! j = x"
      by (auto simp: in_set_conv_nth)
    then show "n \<notin> snd x" using assms(1,3) by auto
  qed
  then have pre: "[key. (key, list) \<leftarrow> take i m, n \<in> list] = []"
    by (rule alias_keys_nil)
  have "[key. (key, list) \<leftarrow> take i m @ m ! i # drop (Suc i) m, n \<in> list]
        = fst (m ! i) # [key. (key, list) \<leftarrow> drop (Suc i) m, n \<in> list]"
    using pre assms(2) by (cases "m ! i") simp
  then show ?thesis using split by metis
qed

text \<open>
  Claim C9. For every person record, \<open>get_canonical_username\<close> returns the first key of
  the alias mapping (in the order of the mapping) whose alias set contains the person's
  name. For a name that occurs in no alias set it returns the name lowercased, with every
  space replaced by a hyphen; character by character, in code points: a space (32)
  becomes a hyphen (45), a capital letter (65 to 90, and 192 to 222 without 215) becomes
  the letter 32 code points above it, and every other character stays.
\<close>

theorem canonical_username_first_alias_or_slug:
  "(\<forall>i < length m. name p \<in> snd (m ! i) \<longrightarrow> (\<forall>j < i. name p \<notin> snd (m ! j)) \<longrightarrow>
      get_canonical_username m p = fst (m ! i)) \<and>
   ((\<forall>i < length m. name p \<notin> snd (m ! i)) \<longrightarrow>
      map of_char (get_canonical_username m p) =
        map (\<lambda>c. if (of_char c :: nat) = 32 then (45 :: nat)
                 else if 65 \<le> (of_char c :: nat) \<and> (of_char c :: nat) \<le> 90 \<or>
                         192 \<le> (of_char c :: nat) \<and> (of_char c :: nat) \<le> 222 \<and>
                         (of_char c :: nat) \<noteq> 215
                 then of_char c + 32 else of_char c) (name p))"
proof (intro conjI allI impI)
  fix i
  assume a: "i < length m" "name p \<in> snd (m ! i)" "\<forall>j < i. name p \<notin> snd (m ! j)"
  from alias_keys_first [OF a]
  obtain rest where hd: "[key. (key, list) \<leftarrow> m, name p \<in> list] = fst (m ! i) # rest" ..
  show "get_canonical_username m p = fst (m ! i)"
    unfolding get_canonical_username_def hd by (simp only: list.case)
next
  assume none: "\<forall>i < length m. name p \<notin> snd (m ! i)"
  have "\<forall>x \<in> set m. name p \<notin> snd x"
  proof
    fix x assume "x \<in> set m"
    then obtain i where "i < length m" "m ! i = x"
      by (auto simp: in_set_conv_nth)
    then show "name p \<notin> snd x" using none by auto
  qed
  then have nil: "[key. (key, list) \<leftarrow> m, name p \<in> list] = []"
    by (rule alias_keys_nil)
  have slug: "get_canonical_username m p = replace_char CHR '' '' CHR ''-'' (lower (name p))"
    unfolding get_canonical_username_def nil by (simp only: list.case)
  show "map of_char (get_canonical_username m p) =
        map (\<lambda>c. if (of_char c :: nat) = 32 then (45 :: nat)
                 else if 65 \<le> (of_char c :: nat) \<and> (of_char c :: nat) \<le> 90 \<or>
                         192 \<le> (of_char c :: nat) \<and> (of_char c :: nat) \<le> 222 \<and>
                         (of_char c :: nat) \<noteq> 215
                 then of_char c + 32 else of_char c) (name p)"
    unfolding slug by (rule slug_codes)
qed

lemma string_of_codes:
  assumes "map of_char s = (map of_char t :: nat list)"
  shows "s = t"
proof -
  have "inj (of_char :: char \<Rightarrow> nat)" by (rule injI) simp
  then show ?thesis using assms by (simp add: inj_map_eq_map)
qed

theorem canonical_username_witness:
  "get_canonical_username
     [(''chris'', {''Chris Fisher'', ''Chris''}), (''wes'', {''Wes Payne'', ''Wes''})]
     \<lparr>role = Some ''host'', group = Some ''cast'', href = None, img = None, name = ''Wes''\<rparr> = ''wes'' \<and>
   get_canonical_username
     [(''chris'', {''Chris Fisher'', ''Chris''}), (''wes'', {''Wes Payne'', ''Wes''})]
     \<lparr>role = Some ''guest'', group = Some ''cast'', href = None, img = None,
      name = ''Jane Q. Public''\<rparr> = ''jane-q.-public'' \<and>
   get_canonical_username []
     \<lparr>role = Some ''guest'', group = Some ''cast'', href = None, img = None,
      name = [CHR 0xC9, CHR ''v'', CHR ''A'', CHR 0xD7, CHR 0xDF]\<rparr>
     = [CHR 0xE9, CHR ''v'', CHR ''a'', CHR 0xD7, CHR 0xDF]"
proof -
  let ?m = "[(''chris'', {''Chris Fisher'', ''Chris''}), (''wes'', {''Wes Payne'', ''Wes''})]"
  let ?w = "\<lparr>role = Some ''host'', group = Some ''cast'', href = None, img = None, name = ''Wes''\<rparr>"
  let ?j = "\<lparr>role = Some ''guest'', group = Some ''cast'', href = None, img = None,
      name = ''Jane Q. Public''\<rparr>"
  let ?e = "\<lparr>role = Some ''guest'', group = Some ''cast'', href = None, img = None,
      name = [CHR 0xC9, CHR ''v'', CHR ''A'', CHR 0xD7, CHR 0xDF]\<rparr>"
  have h1: "(1::nat) < length ?m" by simp
  have h2: "name ?w \<in> snd (?m ! 1)" by simp
  have h3: "\<forall>j < (1::nat). name ?w \<notin> snd (?m ! j)" by simp
  have "\<forall>i < length ?m. name ?w \<in> snd (?m ! i) \<longrightarrow> (\<forall>j < i. name ?w \<notin> snd (?m ! j)) \<longrightarrow>
      get_canonical_username ?m ?w = fst (?m ! i)"
    using canonical_username_first_alias_or_slug [of ?m ?w] by (rule conjunct1)
  then have "get_canonical_username ?m ?w = fst (?m ! 1)"
    using h1 h2 h3 by blast
  then have a: "get_canonical_username ?m ?w = ''wes''" by simp
  have n: "\<forall>i < length ?m. name ?j \<notin> snd (?m ! i)"
    by (auto simp: less_Suc_eq)
  have "map of_char (get_canonical_username ?m ?j) =
        map (\<lambda>c. if (of_char c :: nat) = 32 then (45 :: nat)
                 else if 65 \<le> (of_char c :: nat) \<and> (of_char c :: nat) \<le> 90 \<or>
                         192 \<le> (of_char c :: nat) \<and> (of_char c :: nat) \<le> 222 \<and>
                         (of_char c :: nat) \<noteq> 215
                 then of_char c + 32 else of_char c) (name ?j)"
    using canonical_username_first_alias_or_slug [of ?m ?j] n by blast
  also have "\<dots> = (map of_char ''jane-q.-public'' :: nat list)" by simp
  finally have b: "get_canonical_username ?m ?j = ''jane-q.-public''" by (rule string_of_codes)
  have "map of_char (get_canonical_username [] ?e) =
        map (\<lambda>c. if (of_char c :: nat) = 32 then (45 :: nat)
                 else if 65 \<le> (of_char c :: nat) \<and> (of_char c :: nat) \<le> 90 \<or>
                         192 \<le> (of_char c :: nat) \<and> (of_char c :: nat) \<le> 222 \<and>
                         (of_char c :: nat) \<noteq> 215
                 then of_char c + 32 else of_char c) (name ?e)"
    using canonical_username_first_alias_or_slug [of "[]" ?e] by simp
  also have "\<dots> = (map of_char [CHR 0xE9, CHR ''v'', CHR ''a'', CHR 0xD7, CHR 0xDF] :: nat list)"
    by simp
  finally have c: "get_canonical_username [] ?e = [CHR 0xE9, CHR ''v'', CHR ''a'', CHR 0xD7, CHR 0xDF]"
    by (rule string_of_codes)
  from a b c show ?thesis by (intro conjI)
qed

section \<open>Properties of episode numbers\<close>


































section \<open>Properties of the writer\<close>

lemma mkdir_rev_creates:
  assumes "well_formed fs" and "\<forall>q \<in> set (prefixes (rev xs)). \<forall>c. lookup fs q \<noteq> Some (File c)"
  shows "\<exists>fs1. mkdir_rev fs xs = Inr fs1 \<and>
           (\<forall>q \<in> set (prefixes (rev xs)). lookup fs1 q = Some Dir) \<and>
           (\<forall>q. q \<notin> set (prefixes (rev xs)) \<longrightarrow> fs1 q = fs q)"
  using assms
proof (induction xs)
  case Nil
  show ?case by (simp add: lookup_def)
next
  case (Cons x xs)
  let ?p = "rev xs @ [x]"
  have pre: "prefixes (rev (x # xs)) = prefixes (rev xs) @ [?p]"
    by simp
  have nofile: "\<forall>c. fs ?p \<noteq> Some (File c)"
  proof
    fix c
    have "?p \<in> set (prefixes (rev (x # xs)))" by simp
    then have "lookup fs ?p \<noteq> Some (File c)" using Cons.prems(2) by blast
    then show "fs ?p \<noteq> Some (File c)" by (simp add: lookup_def)
  qed
  have "\<forall>q \<in> set (prefixes (rev xs)). \<forall>c. lookup fs q \<noteq> Some (File c)"
    using Cons.prems(2) by (simp add: pre)
  then obtain fs1 where ih: "mkdir_rev fs xs = Inr fs1"
      "\<forall>q \<in> set (prefixes (rev xs)). lookup fs1 q = Some Dir"
      "\<forall>q. q \<notin> set (prefixes (rev xs)) \<longrightarrow> fs1 q = fs q"
    using Cons.IH Cons.prems(1) by blast
  have notin: "?p \<notin> set (prefixes (rev xs))"
  proof
    assume "?p \<in> set (prefixes (rev xs))"
    then have "prefix ?p (rev xs)" by (simp add: in_set_prefixes)
    then have "length ?p \<le> length (rev xs)" by (rule prefix_length_le)
    then show False by simp
  qed
  show ?case
  proof (cases "fs ?p")
    case None
    then have run: "mkdir_rev fs (x # xs) = Inr (fs1(?p \<mapsto> Dir))"
      by (simp add: ih(1))
    have a: "\<forall>q \<in> set (prefixes (rev (x # xs))). lookup (fs1(?p \<mapsto> Dir)) q = Some Dir"
    proof
      fix q assume "q \<in> set (prefixes (rev (x # xs)))"
      then have "q = ?p \<or> q \<in> set (prefixes (rev xs))" by (auto simp: pre)
      then show "lookup (fs1(?p \<mapsto> Dir)) q = Some Dir"
      proof
        assume "q = ?p"
        then show ?thesis by (simp add: lookup_def)
      next
        assume q: "q \<in> set (prefixes (rev xs))"
        then have "q \<noteq> ?p" using notin by blast
        moreover have "lookup fs1 q = Some Dir" using ih(2) q by blast
        ultimately show ?thesis by (auto simp: lookup_def split: if_splits)
      qed
    qed
    have b: "\<forall>q. q \<notin> set (prefixes (rev (x # xs))) \<longrightarrow> (fs1(?p \<mapsto> Dir)) q = fs q"
      using ih(3) by (simp add: pre)
    from run a b show ?thesis by blast
  next
    case (Some n)
    then have d: "fs ?p = Some Dir" using nofile by (cases n) auto
    then have run: "mkdir_rev fs (x # xs) = Inr fs" by simp
    have a: "\<forall>q \<in> set (prefixes (rev (x # xs))). lookup fs q = Some Dir"
    proof
      fix q assume q: "q \<in> set (prefixes (rev (x # xs)))"
      then have "prefix q ?p" by (simp add: in_set_prefixes)
      then have "q = ?p \<or> strict_prefix q ?p" by (auto simp: strict_prefix_def)
      then show "lookup fs q = Some Dir"
      proof
        assume "q = ?p"
        then show ?thesis using d by (simp add: lookup_def)
      next
        assume "strict_prefix q ?p"
        moreover have "fs ?p \<noteq> None" using d by simp
        ultimately show ?thesis using assms(1) unfolding well_formed_def by blast
      qed
    qed
    from run a show ?thesis by blast
  qed
qed

lemma path_not_among_parents: "p \<noteq> [] \<Longrightarrow> p \<notin> set (prefixes (butlast p))"
proof
  assume ne: "p \<noteq> []" and "p \<in> set (prefixes (butlast p))"
  then have "prefix p (butlast p)" by (simp add: in_set_prefixes)
  then have "length p \<le> length (butlast p)" by (rule prefix_length_le)
  then have "length p \<le> length p - 1" by (simp only: length_butlast)
  then have "length p = 0" by arith
  then show False using ne by simp
qed

lemma save_file_skip:
  "path_exists fs p \<Longrightarrow> save_file fs p c False = ((fs, [(Warning, SkipExists p)]), Inr False)"
  by (simp add: save_file_def)

lemma save_file_fresh:
  assumes wf: "well_formed fs"
    and fresh: "\<not> path_exists fs p"
    and anc: "\<forall>q \<in> set (prefixes (butlast p)). \<forall>c'. lookup fs q \<noteq> Some (File c')"
  shows "\<exists>fs1. save_file fs p c ow = ((fs1, [(Info, Saved p)]), Inr True) \<and>
            lookup fs1 p = Some (File c) \<and>
            (\<forall>q \<in> set (prefixes (butlast p)). lookup fs1 q = Some Dir) \<and>
            (\<forall>q. q \<noteq> p \<and> q \<notin> set (prefixes (butlast p)) \<longrightarrow> fs1 q = fs q)"
proof -
  have ne: "p \<noteq> []" using fresh by (auto simp: path_exists_def lookup_def)
  have none: "fs p = None" using fresh ne by (simp add: path_exists_def lookup_def)
  have anc': "\<forall>q \<in> set (prefixes (rev (rev (butlast p)))). \<forall>c'. lookup fs q \<noteq> Some (File c')"
    using anc by simp
  from mkdir_rev_creates [OF wf anc']
  obtain fsm where m: "mkdir_rev fs (rev (butlast p)) = Inr fsm"
    and dirs: "\<forall>q \<in> set (prefixes (butlast p)). lookup fsm q = Some Dir"
    and same: "\<forall>q. q \<notin> set (prefixes (butlast p)) \<longrightarrow> fsm q = fs q"
    by auto
  have notin: "p \<notin> set (prefixes (butlast p))" using ne by (rule path_not_among_parents)
  have "fsm p = None" using same notin none by simp
  then have lp: "lookup fsm p = None" using ne by (simp add: lookup_def)
  have "butlast p \<in> set (prefixes (butlast p))" by (simp add: in_set_prefixes)
  then have lb: "lookup fsm (butlast p) = Some Dir" using dirs by blast
  have w: "write_file fsm p c = Inr (fsm(p \<mapsto> File c))"
    by (simp add: write_file_def lp lb)
  have run: "save_file fs p c ow = ((fsm(p \<mapsto> File c), [(Info, Saved p)]), Inr True)"
    using fresh by (simp add: save_file_def mkdir_parents_def m w)
  have a: "lookup (fsm(p \<mapsto> File c)) p = Some (File c)" using ne by (simp add: lookup_def)
  have b: "\<forall>q \<in> set (prefixes (butlast p)). lookup (fsm(p \<mapsto> File c)) q = Some Dir"
  proof
    fix q assume q: "q \<in> set (prefixes (butlast p))"
    then have "q \<noteq> p" using notin by blast
    moreover have "lookup fsm q = Some Dir" using dirs q by blast
    ultimately show "lookup (fsm(p \<mapsto> File c)) q = Some Dir"
      by (auto simp: lookup_def split: if_splits)
  qed
  have d: "\<forall>q. q \<noteq> p \<and> q \<notin> set (prefixes (butlast p)) \<longrightarrow> (fsm(p \<mapsto> File c)) q = fs q"
    using same by simp
  from run a b d show ?thesis by blast
qed

text \<open>
  Claim C7. On a path that does not exist yet (in a well-formed file system where no
  ancestor of the path is a regular file), the first call of the writer with
  \<open>overwrite = False\<close> creates every missing parent directory, writes the content, logs
  the write and returns \<open>True\<close>; a second call with the same path and content leaves the
  file system as it is, logs a skip and returns \<open>False\<close>. A call with
  \<open>overwrite = False\<close> on any path that already exists changes nothing, logs a skip and
  returns \<open>False\<close>.
\<close>

theorem save_file_twice_writes_once:
  "(well_formed fs \<and> \<not> path_exists fs p \<and>
    (\<forall>q \<in> set (prefixes (butlast p)). \<forall>c'. lookup fs q \<noteq> Some (File c')) \<longrightarrow>
      (\<exists>fs1. save_file fs p c False = ((fs1, [(Info, Saved p)]), Inr True) \<and>
             lookup fs1 p = Some (File c) \<and>
             (\<forall>q \<in> set (prefixes (butlast p)). lookup fs1 q = Some Dir) \<and>
             (\<forall>q. q \<noteq> p \<and> q \<notin> set (prefixes (butlast p)) \<longrightarrow> fs1 q = fs q) \<and>
             save_file fs1 p c False = ((fs1, [(Warning, SkipExists p)]), Inr False))) \<and>
   (path_exists fs p \<longrightarrow>
      save_file fs p c False = ((fs, [(Warning, SkipExists p)]), Inr False))"
proof (intro conjI impI)
  assume h: "well_formed fs \<and> \<not> path_exists fs p \<and>
    (\<forall>q \<in> set (prefixes (butlast p)). \<forall>c'. lookup fs q \<noteq> Some (File c'))"
  then have wf: "well_formed fs" and fresh: "\<not> path_exists fs p"
    and anc: "\<forall>q \<in> set (prefixes (butlast p)). \<forall>c'. lookup fs q \<noteq> Some (File c')"
    by blast+
  from save_file_fresh [OF wf fresh anc, of c False]
  obtain fs1 where r: "save_file fs p c False = ((fs1, [(Info, Saved p)]), Inr True)"
    "lookup fs1 p = Some (File c)"
    "\<forall>q \<in> set (prefixes (butlast p)). lookup fs1 q = Some Dir"
    "\<forall>q. q \<noteq> p \<and> q \<notin> set (prefixes (butlast p)) \<longrightarrow> fs1 q = fs q"
    by blast
  have "path_exists fs1 p" using r(2) by (simp add: path_exists_def)
  then have "save_file fs1 p c False = ((fs1, [(Warning, SkipExists p)]), Inr False)"
    by (rule save_file_skip)
  with r show "\<exists>fs1. save_file fs p c False = ((fs1, [(Info, Saved p)]), Inr True) \<and>
             lookup fs1 p = Some (File c) \<and>
             (\<forall>q \<in> set (prefixes (butlast p)). lookup fs1 q = Some Dir) \<and>
             (\<forall>q. q \<noteq> p \<and> q \<notin> set (prefixes (butlast p)) \<longrightarrow> fs1 q = fs q) \<and>
             save_file fs1 p c False = ((fs1, [(Warning, SkipExists p)]), Inr False)"
    by blast
next
  assume "path_exists fs p"
  then show "save_file fs p c False = ((fs, [(Warning, SkipExists p)]), Inr False)"
    by (rule save_file_skip)
qed

theorem save_file_twice_writes_once_witness:
  "(\<exists>fs1. save_file (Map.empty :: string fs) [''data'', ''content'', ''a.md''] ''text'' False
            = ((fs1, [(Info, Saved [''data'', ''content'', ''a.md''])]), Inr True) \<and>
          lookup fs1 [''data'', ''content'', ''a.md''] = Some (File ''text'') \<and>
          lookup fs1 [''data'', ''content''] = Some Dir \<and>
          save_file fs1 [''data'', ''content'', ''a.md''] ''text'' False
            = ((fs1, [(Warning, SkipExists [''data'', ''content'', ''a.md''])]), Inr False)) \<and>
   save_file [[''a.md''] \<mapsto> File ''old''] [''a.md''] ''new'' False
     = (([[''a.md''] \<mapsto> File ''old''], [(Warning, SkipExists [''a.md''])]), Inr False)"
proof -
  let ?p = "[''data'', ''content'', ''a.md'']"
  let ?e = "Map.empty :: string fs"
  let ?g = "[[''a.md''] \<mapsto> File ''old''] :: string fs"
  have h: "well_formed ?e \<and> \<not> path_exists ?e ?p \<and>
      (\<forall>q \<in> set (prefixes (butlast ?p)). \<forall>c'. lookup ?e q \<noteq> Some (File c'))"
    by (simp add: well_formed_def path_exists_def lookup_def)
  from save_file_twice_writes_once [of ?e ?p "''text''"] h
  obtain fs1 where r: "save_file ?e ?p ''text'' False = ((fs1, [(Info, Saved ?p)]), Inr True)"
    "lookup fs1 ?p = Some (File ''text'')"
    "\<forall>q \<in> set (prefixes (butlast ?p)). lookup fs1 q = Some Dir"
    "save_file fs1 ?p ''text'' False = ((fs1, [(Warning, SkipExists ?p)]), Inr False)"
    by blast
  have "[''data'', ''content''] \<in> set (prefixes (butlast ?p))" by (simp add: in_set_prefixes)
  then have d: "lookup fs1 [''data'', ''content''] = Some Dir" using r(3) by blast
  have g: "path_exists ?g [''a.md'']" by (simp add: path_exists_def lookup_def)
  have s: "save_file ?g [''a.md''] ''new'' False = ((?g, [(Warning, SkipExists [''a.md''])]), Inr False)"
    using save_file_twice_writes_once [of ?g "[''a.md'']" "''new''"] g by blast
  from r(1,2,4) d s show ?thesis by blast
qed

section \<open>Properties of the sponsor registry\<close>

lemma foldl_max_ge: "(a :: int) \<le> foldl max a xs"
proof (induction xs arbitrary: a)
  case Nil
  show ?case by simp
next
  case (Cons x xs)
  have "a \<le> max a x" by simp
  also have "max a x \<le> foldl max (max a x) xs" by (rule Cons.IH)
  finally show ?case by simp
qed

lemma foldl_max_upper: "x \<in> set xs \<Longrightarrow> (x :: int) \<le> foldl max a xs"
proof (induction xs arbitrary: a)
  case Nil
  then show ?case by simp
next
  case (Cons y ys)
  show ?case
  proof (cases "x = y")
    case True
    have "x \<le> max a y" using True by simp
    also have "max a y \<le> foldl max (max a y) ys" by (rule foldl_max_ge)
    finally show ?thesis by simp
  next
    case False
    then have "x \<in> set ys" using Cons.prems by simp
    then have "x \<le> foldl max (max a y) ys" by (rule Cons.IH)
    then show ?thesis by simp
  qed
qed

lemma episode_or_default_nonneg:
  "0 \<le> episode_or_default s \<Longrightarrow> \<exists>e. sponsor.episode s = Some e \<and> 1 \<le> e \<and> episode_or_default s = e"
  by (cases "sponsor.episode s") (auto simp: episode_or_default_def split: if_splits)

lemma episode_or_default_positive:
  "sponsor.episode s = Some e \<Longrightarrow> 1 \<le> e \<Longrightarrow> episode_or_default s = e"
  by (simp add: episode_or_default_def)

lemma sponsors_update_single:
  "sponsors_update reg [(k, s)] =
     (case registered_episode reg k of
        Inl e \<Rightarrow> Inl e
      | Inr r \<Rightarrow> Inr (if episode_or_default s > r then AList.update k s reg else reg))"
  by (simp add: sponsors_update_def dict_update_def split: sum.splits)

lemma sponsors_updates_key:
  assumes "a = (case map_of reg k of None \<Rightarrow> - 1 | Some c \<Rightarrow> episode_or_default c)"
    and "\<forall>c. map_of reg k = Some c \<longrightarrow> (\<exists>e. sponsor.episode c = Some e \<and> 1 \<le> e)"
  shows "\<exists>reg'. sponsors_updates reg (map (\<lambda>s. [(k, s)]) rs) = Inr reg' \<and>
           (\<forall>k'. k' \<noteq> k \<longrightarrow> map_of reg' k' = map_of reg k') \<and>
           map_of reg' k =
             (if a < foldl max a (map episode_or_default rs)
              then find (\<lambda>s. episode_or_default s = foldl max a (map episode_or_default rs)) rs
              else map_of reg k)"
  using assms
proof (induction rs arbitrary: reg a)
  case Nil
  show ?case by simp
next
  case (Cons s rs)
  let ?eod = episode_or_default
  have re: "registered_episode reg k = Inr a"
  proof (cases "map_of reg k")
    case None
    then show ?thesis using Cons.prems(1) by (simp add: registered_episode_def)
  next
    case (Some c)
    then obtain e where e: "sponsor.episode c = Some e" "1 \<le> e" using Cons.prems(2) by blast
    then have "?eod c = e" by (rule episode_or_default_positive)
    then show ?thesis using Some e Cons.prems(1) by (simp add: registered_episode_def)
  qed
  have a_ge: "- 1 \<le> a"
  proof (cases "map_of reg k")
    case None
    then show ?thesis using Cons.prems(1) by simp
  next
    case (Some c)
    then obtain e where e: "sponsor.episode c = Some e" "1 \<le> e" using Cons.prems(2) by blast
    then have "?eod c = e" by (rule episode_or_default_positive)
    then show ?thesis using Some e Cons.prems(1) by simp
  qed
  define reg1 where "reg1 = (if a < ?eod s then AList.update k s reg else reg)"
  define a1 where "a1 = (case map_of reg1 k of None \<Rightarrow> - 1 | Some c \<Rightarrow> ?eod c)"
  have step: "sponsors_update reg [(k, s)] = Inr reg1"
    by (simp add: sponsors_update_single re reg1_def)
  have inv1: "\<forall>c. map_of reg1 k = Some c \<longrightarrow> (\<exists>e. sponsor.episode c = Some e \<and> 1 \<le> e)"
  proof (cases "a < ?eod s")
    case True
    then have "0 \<le> ?eod s" using a_ge by simp
    then obtain e where "sponsor.episode s = Some e" "1 \<le> e"
      using episode_or_default_nonneg by blast
    then show ?thesis using True by (simp add: reg1_def update_conv')
  next
    case False
    then show ?thesis using Cons.prems(2) by (simp add: reg1_def)
  qed
  from Cons.IH [of a1 reg1, OF a1_def inv1]
  obtain reg' where ih: "sponsors_updates reg1 (map (\<lambda>s. [(k, s)]) rs) = Inr reg'"
    "\<forall>k'. k' \<noteq> k \<longrightarrow> map_of reg' k' = map_of reg1 k'"
    "map_of reg' k = (if a1 < foldl max a1 (map ?eod rs)
               then find (\<lambda>s. ?eod s = foldl max a1 (map ?eod rs)) rs
               else map_of reg1 k)"
    by blast
  have run: "sponsors_updates reg (map (\<lambda>s. [(k, s)]) (s # rs)) = Inr reg'"
    by (simp add: step ih(1))
  have others: "\<forall>k'. k' \<noteq> k \<longrightarrow> map_of reg' k' = map_of reg k'"
    using ih(2) by (simp add: reg1_def update_conv')
  have key: "map_of reg' k =
      (if a < foldl max a (map ?eod (s # rs))
       then find (\<lambda>t. ?eod t = foldl max a (map ?eod (s # rs))) (s # rs)
       else map_of reg k)"
  proof (cases "a < ?eod s")
    case True
    then have r1: "map_of reg1 k = Some s" and a1: "a1 = ?eod s"
      by (simp_all add: reg1_def a1_def update_conv')
    have m: "max a (?eod s) = ?eod s" using True by simp
    have ge: "?eod s \<le> foldl max (?eod s) (map ?eod rs)" by (rule foldl_max_ge)
    then have gt: "a < foldl max (?eod s) (map ?eod rs)" using True by simp
    show ?thesis
    proof (cases "?eod s < foldl max (?eod s) (map ?eod rs)")
      case True
      then show ?thesis using ih(3) gt by (simp add: a1 m)
    next
      case False
      then have "?eod s = foldl max (?eod s) (map ?eod rs)" using ge by simp
      then show ?thesis using ih(3) gt False r1 by (simp add: a1 m)
    qed
  next
    case False
    then have r1: "map_of reg1 k = map_of reg k" and a1: "a1 = a"
      using Cons.prems(1) by (simp_all add: reg1_def a1_def update_conv')
    have m: "max a (?eod s) = a" using False by simp
    show ?thesis
    proof (cases "a < foldl max a (map ?eod rs)")
      case True
      then have "?eod s \<noteq> foldl max a (map ?eod rs)" using False by simp
      then show ?thesis using ih(3) True by (simp add: a1 m)
    next
      case False
      then show ?thesis using ih(3) by (simp add: a1 m r1)
    qed
  qed
  from run others key show ?case by blast
qed

lemma foldl_max_in: "foldl max a xs = a \<or> foldl max (a :: int) xs \<in> set xs"
proof (induction xs arbitrary: a)
  case Nil
  show ?case by simp
next
  case (Cons x xs)
  from Cons.IH [of "max a x"]
  show ?case by (auto simp: max_def split: if_splits)
qed

lemma sponsors_updates_first_maximum:
  assumes fresh: "map_of reg k = None" and ne: "rs \<noteq> []"
    and pos: "\<forall>s \<in> set rs. \<exists>e. sponsor.episode s = Some e \<and> 1 \<le> e"
  obtains reg' r m i where
    "sponsors_updates reg (map (\<lambda>s. [(k, s)]) rs) = Inr reg'"
    "map_of reg' k = Some r" "i < length rs" "r = rs ! i" "sponsor.episode r = Some m"
    "\<forall>s \<in> set rs. \<forall>e. sponsor.episode s = Some e \<longrightarrow> e \<le> m"
    "\<forall>j < i. \<forall>e. sponsor.episode (rs ! j) = Some e \<longrightarrow> e < m"
proof -
  let ?eod = episode_or_default
  define M where "M = foldl max (- 1) (map ?eod rs)"
  have eod: "?eod s = e" if "s \<in> set rs" "sponsor.episode s = Some e" for s e
  proof -
    from pos that(1) obtain e' where "sponsor.episode s = Some e'" "1 \<le> e'" by blast
    then show ?thesis using that(2) by (simp add: episode_or_default_def)
  qed
  have upper: "?eod s \<le> M" if "s \<in> set rs" for s
    unfolding M_def using that by (intro foldl_max_upper) simp
  obtain s0 where s0: "s0 \<in> set rs" using ne by (cases rs) auto
  then obtain e0 where e0: "sponsor.episode s0 = Some e0" "1 \<le> e0" using pos by blast
  then have "?eod s0 = e0" using s0 eod by blast
  then have Mpos: "1 \<le> M" using upper [OF s0] e0(2) by simp
  have a: "(- 1 :: int) = (case map_of reg k of None \<Rightarrow> - 1 | Some c \<Rightarrow> ?eod c)"
    by (simp add: fresh)
  have inv: "\<forall>c. map_of reg k = Some c \<longrightarrow> (\<exists>e. sponsor.episode c = Some e \<and> 1 \<le> e)"
    by (simp add: fresh)
  from sponsors_updates_key [of "- 1" reg k rs, OF a inv]
  obtain reg' where run: "sponsors_updates reg (map (\<lambda>s. [(k, s)]) rs) = Inr reg'"
    and key: "map_of reg' k = (if - 1 < M then find (\<lambda>s. ?eod s = M) rs else map_of reg k)"
    unfolding M_def by blast
  have key': "map_of reg' k = find (\<lambda>s. ?eod s = M) rs" using key Mpos by simp
  have "M \<in> set (map ?eod rs)"
    using foldl_max_in [of "- 1" "map ?eod rs"] Mpos unfolding M_def by auto
  then obtain t where "t \<in> set rs" "?eod t = M" by auto
  then have "find (\<lambda>s. ?eod s = M) rs \<noteq> None" by (auto simp: find_None_iff)
  then obtain r where r: "find (\<lambda>s. ?eod s = M) rs = Some r" by blast
  then obtain i where i: "i < length rs" "?eod (rs ! i) = M" "r = rs ! i"
    "\<forall>j < i. ?eod (rs ! j) \<noteq> M"
    unfolding find_Some_iff by blast
  have "0 \<le> ?eod r" using i(2,3) Mpos by simp
  then obtain e where "sponsor.episode r = Some e" "?eod r = e"
    using episode_or_default_nonneg by blast
  then have ep: "sponsor.episode r = Some M" using i(2,3) by simp
  have bound: "\<forall>s \<in> set rs. \<forall>e. sponsor.episode s = Some e \<longrightarrow> e \<le> M"
  proof (intro ballI allI impI)
    fix s e assume "s \<in> set rs" "sponsor.episode s = Some e"
    then show "e \<le> M" using eod upper by force
  qed
  have first: "\<forall>j < i. \<forall>e. sponsor.episode (rs ! j) = Some e \<longrightarrow> e < M"
  proof (intro allI impI)
    fix j e assume j: "j < i" and e: "sponsor.episode (rs ! j) = Some e"
    then have mem: "rs ! j \<in> set rs" using i(1) by simp
    then have "?eod (rs ! j) = e" using e eod by blast
    moreover have "?eod (rs ! j) \<le> M" using mem by (rule upper)
    moreover have "?eod (rs ! j) \<noteq> M" using i(4) j by blast
    ultimately show "e < M" by simp
  qed
  have kr: "map_of reg' k = Some r" using key' r by simp
  show thesis by (rule that [OF run kr i(1) i(3) ep bound first])
qed

text \<open>
  Claim C2, as the code has it. For every non-empty sequence of updates to one registry
  key that is not registered yet, carrying positive episode numbers, the registry holds
  afterwards the first record of the sequence whose episode number is the maximum of the
  sequence. Applying the same multiset of updates in another order yields a record with
  the same episode number; it is the same record unless two different records carry the
  maximal episode number, in which case the one that came first stays.
\<close>

theorem sponsor_registry_keeps_first_maximum:
  assumes "map_of reg k = None" and "rs \<noteq> []"
    and "\<forall>s \<in> set rs. \<exists>e. sponsor.episode s = Some e \<and> 1 \<le> e"
    and "mset rs' = mset rs"
  shows "\<exists>reg1 reg2 r r' m i.
           sponsors_updates reg (map (\<lambda>s. [(k, s)]) rs) = Inr reg1 \<and>
           map_of reg1 k = Some r \<and> i < length rs \<and> r = rs ! i \<and> sponsor.episode r = Some m \<and>
           (\<forall>s \<in> set rs. \<forall>e. sponsor.episode s = Some e \<longrightarrow> e \<le> m) \<and>
           (\<forall>j < i. \<forall>e. sponsor.episode (rs ! j) = Some e \<longrightarrow> e < m) \<and>
           sponsors_updates reg (map (\<lambda>s. [(k, s)]) rs') = Inr reg2 \<and>
           map_of reg2 k = Some r' \<and> r' \<in> set rs \<and> sponsor.episode r' = Some m \<and>
           ((\<forall>s \<in> set rs. sponsor.episode s = Some m \<longrightarrow> s = r) \<longrightarrow> r' = r)"
proof -
  have sets: "set rs' = set rs" using assms(4) by (rule mset_eq_setD)
  have ne': "rs' \<noteq> []" using assms(2) sets by auto
  have pos': "\<forall>s \<in> set rs'. \<exists>e. sponsor.episode s = Some e \<and> 1 \<le> e"
    using assms(3) sets by simp
  show ?thesis
  proof (rule sponsors_updates_first_maximum [where reg = reg and k = k and rs = rs,
        OF assms(1) assms(2) assms(3)])
    fix reg1 r m i
    assume a: "sponsors_updates reg (map (\<lambda>s. [(k, s)]) rs) = Inr reg1"
      "map_of reg1 k = Some r" "i < length rs" "r = rs ! i" "sponsor.episode r = Some m"
      "\<forall>s \<in> set rs. \<forall>e. sponsor.episode s = Some e \<longrightarrow> e \<le> m"
      "\<forall>j < i. \<forall>e. sponsor.episode (rs ! j) = Some e \<longrightarrow> e < m"
    show ?thesis
    proof (rule sponsors_updates_first_maximum [where reg = reg and k = k and rs = rs',
          OF assms(1) ne' pos'])
      fix reg2 r' m' i'
      assume b: "sponsors_updates reg (map (\<lambda>s. [(k, s)]) rs') = Inr reg2"
        "map_of reg2 k = Some r'" "i' < length rs'" "r' = rs' ! i'" "sponsor.episode r' = Some m'"
        "\<forall>s \<in> set rs'. \<forall>e. sponsor.episode s = Some e \<longrightarrow> e \<le> m'"
        "\<forall>j < i'. \<forall>e. sponsor.episode (rs' ! j) = Some e \<longrightarrow> e < m'"
      have "rs ! i \<in> set rs" using a(3) by (rule nth_mem)
      then have r_in: "r \<in> set rs'" using a(4) sets by simp
      have "rs' ! i' \<in> set rs'" using b(3) by (rule nth_mem)
      then have r'_in: "r' \<in> set rs" using b(4) sets by simp
      have "m' \<le> m" using a(6) r'_in b(5) by blast
      moreover have "m \<le> m'" using b(6) r_in a(5) by blast
      ultimately have mm: "m' = m" by simp
      have ep': "sponsor.episode r' = Some m" using b(5) mm by simp
      have uniq: "(\<forall>s \<in> set rs. sponsor.episode s = Some m \<longrightarrow> s = r) \<longrightarrow> r' = r"
        using r'_in ep' by blast
      show ?thesis
      proof (intro exI conjI)
        show "sponsors_updates reg (map (\<lambda>s. [(k, s)]) rs) = Inr reg1" by (rule a(1))
        show "map_of reg1 k = Some r" by (rule a(2))
        show "i < length rs" by (rule a(3))
        show "r = rs ! i" by (rule a(4))
        show "sponsor.episode r = Some m" by (rule a(5))
        show "\<forall>s \<in> set rs. \<forall>e. sponsor.episode s = Some e \<longrightarrow> e \<le> m" by (rule a(6))
        show "\<forall>j < i. \<forall>e. sponsor.episode (rs ! j) = Some e \<longrightarrow> e < m" by (rule a(7))
        show "sponsors_updates reg (map (\<lambda>s. [(k, s)]) rs') = Inr reg2" by (rule b(1))
        show "map_of reg2 k = Some r'" by (rule b(2))
        show "r' \<in> set rs" by (rule r'_in)
        show "sponsor.episode r' = Some m" by (rule ep')
        show "(\<forall>s \<in> set rs. sponsor.episode s = Some m \<longrightarrow> s = r) \<longrightarrow> r' = r"
          by (rule uniq)
      qed
    qed
  qed
qed

theorem sponsor_registry_keeps_first_maximum_witness:
  "map_of ([] :: sponsors) ''acme.com-lup.md'' = None \<and>
   [\<lparr>shortname = ''acme'', episode = Some 3\<rparr>, \<lparr>shortname = ''acme'', episode = Some 7\<rparr>] \<noteq> [] \<and>
   mset [\<lparr>shortname = ''acme'', episode = Some 7\<rparr>, \<lparr>shortname = ''acme'', episode = Some 3\<rparr>]
     = mset [\<lparr>shortname = ''acme'', episode = Some 3\<rparr>, \<lparr>shortname = ''acme'', episode = Some 7\<rparr>] \<and>
   (\<exists>reg1 reg2 r r' m i.
      sponsors_updates [] (map (\<lambda>s. [(''acme.com-lup.md'', s)])
        [\<lparr>shortname = ''acme'', episode = Some 3\<rparr>, \<lparr>shortname = ''acme'', episode = Some 7\<rparr>])
        = Inr reg1 \<and>
      map_of reg1 ''acme.com-lup.md'' = Some r \<and>
      i < length [\<lparr>shortname = ''acme'', episode = Some 3\<rparr>, \<lparr>shortname = ''acme'', episode = Some 7\<rparr>] \<and>
      r = [\<lparr>shortname = ''acme'', episode = Some 3\<rparr>, \<lparr>shortname = ''acme'', episode = Some 7\<rparr>] ! i \<and>
      sponsor.episode r = Some m \<and>
      sponsors_updates [] (map (\<lambda>s. [(''acme.com-lup.md'', s)])
        [\<lparr>shortname = ''acme'', episode = Some 7\<rparr>, \<lparr>shortname = ''acme'', episode = Some 3\<rparr>])
        = Inr reg2 \<and>
      map_of reg2 ''acme.com-lup.md'' = Some r' \<and> sponsor.episode r' = Some m)"
proof -
  let ?a = "\<lparr>shortname = ''acme'', episode = Some (3 :: int)\<rparr>"
  let ?b = "\<lparr>shortname = ''acme'', episode = Some (7 :: int)\<rparr>"
  let ?k = "''acme.com-lup.md''"
  have h1: "map_of ([] :: sponsors) ?k = None" by simp
  have h2: "[?a, ?b] \<noteq> []" by simp
  have h3: "\<forall>s \<in> set [?a, ?b]. \<exists>e. sponsor.episode s = Some e \<and> 1 \<le> e" by simp
  have h4: "mset [?b, ?a] = mset [?a, ?b]" by simp
  from sponsor_registry_keeps_first_maximum [where reg = "[]" and k = ?k and rs = "[?a, ?b]" and rs' = "[?b, ?a]", OF h1 h2 h3 h4]
  obtain reg1 reg2 r r' m i where c:
    "sponsors_updates [] (map (\<lambda>s. [(?k, s)]) [?a, ?b]) = Inr reg1"
    "map_of reg1 ?k = Some r" "i < length [?a, ?b]" "r = [?a, ?b] ! i" "sponsor.episode r = Some m"
    "sponsors_updates [] (map (\<lambda>s. [(?k, s)]) [?b, ?a]) = Inr reg2"
    "map_of reg2 ?k = Some r'" "sponsor.episode r' = Some m"
    by blast
  have "\<exists>reg1 reg2 r r' m i.
      sponsors_updates [] (map (\<lambda>s. [(?k, s)]) [?a, ?b]) = Inr reg1 \<and>
      map_of reg1 ?k = Some r \<and> i < length [?a, ?b] \<and> r = [?a, ?b] ! i \<and>
      sponsor.episode r = Some m \<and>
      sponsors_updates [] (map (\<lambda>s. [(?k, s)]) [?b, ?a]) = Inr reg2 \<and>
      map_of reg2 ?k = Some r' \<and> sponsor.episode r' = Some m"
  proof (intro exI conjI)
    show "sponsors_updates [] (map (\<lambda>s. [(?k, s)]) [?a, ?b]) = Inr reg1" by (rule c(1))
    show "map_of reg1 ?k = Some r" by (rule c(2))
    show "i < length [?a, ?b]" by (rule c(3))
    show "r = [?a, ?b] ! i" by (rule c(4))
    show "sponsor.episode r = Some m" by (rule c(5))
    show "sponsors_updates [] (map (\<lambda>s. [(?k, s)]) [?b, ?a]) = Inr reg2" by (rule c(6))
    show "map_of reg2 ?k = Some r'" by (rule c(7))
    show "sponsor.episode r' = Some m" by (rule c(8))
  qed
  with h1 h2 h4 show ?thesis by (intro conjI)
qed

text \<open>
  The claim as it stands fails in two ways. Two different records with the same episode
  number are kept in the order of arrival, so the final record depends on the order; and
  a single update with episode number 0 is read as \<open>-1\<close> and is not registered at all.
\<close>

theorem sponsor_registry_order_counterexample:
  "mset [\<lparr>shortname = ''acme'', episode = Some 5\<rparr>, \<lparr>shortname = ''acme-cloud'', episode = Some 5\<rparr>]
     = mset [\<lparr>shortname = ''acme-cloud'', episode = Some 5\<rparr>, \<lparr>shortname = ''acme'', episode = Some 5\<rparr>] \<and>
   sponsors_updates []
     [[(''acme.com-lup.md'', \<lparr>shortname = ''acme'', episode = Some 5\<rparr>)],
      [(''acme.com-lup.md'', \<lparr>shortname = ''acme-cloud'', episode = Some 5\<rparr>)]]
     = Inr [(''acme.com-lup.md'', \<lparr>shortname = ''acme'', episode = Some 5\<rparr>)] \<and>
   sponsors_updates []
     [[(''acme.com-lup.md'', \<lparr>shortname = ''acme-cloud'', episode = Some 5\<rparr>)],
      [(''acme.com-lup.md'', \<lparr>shortname = ''acme'', episode = Some 5\<rparr>)]]
     = Inr [(''acme.com-lup.md'', \<lparr>shortname = ''acme-cloud'', episode = Some 5\<rparr>)] \<and>
   \<lparr>shortname = ''acme'', episode = Some (5 :: int)\<rparr> \<noteq> \<lparr>shortname = ''acme-cloud'', episode = Some 5\<rparr> \<and>
   sponsors_updates [] [[(''acme.com-lup.md'', \<lparr>shortname = ''acme'', episode = Some 0\<rparr>)]]
     = Inr []"
  by (simp add: sponsors_update_def dict_update_def registered_episode_def
      episode_or_default_def)

section \<open>Properties of the registry flush\<close>

lemma mkdir_parents_present:
  assumes "lookup fs q = Some Dir"
  shows "mkdir_parents fs q = Inr fs"
proof (cases "rev q")
  case Nil
  then show ?thesis by (simp add: mkdir_parents_def)
next
  case (Cons x xs)
  then have q: "q = rev (x # xs)" by (metis rev_rev_ident)
  then have "q \<noteq> []" by simp
  then have "fs q = Some Dir" using assms by (simp add: lookup_def)
  then have "fs (rev (x # xs)) = Some Dir" using q by simp
  then have "mkdir_rev fs (x # xs) = Inr fs" by simp
  then show ?thesis using Cons by (simp add: mkdir_parents_def)
qed

lemma parent_of_file:
  assumes "well_formed fs" and "lookup fs p = Some (File c0)"
  shows "p \<noteq> [] \<and> lookup fs (butlast p) = Some Dir"
proof -
  have ne: "p \<noteq> []" using assms(2) by (auto simp: lookup_def)
  then have f: "fs p \<noteq> None" using assms(2) by (simp add: lookup_def)
  have "butlast p @ [last p] = p" using ne by simp
  then have "strict_prefix (butlast p) p" by (metis append_Nil2 list.distinct(1) same_append_eq strict_prefixI')
  then show ?thesis using assms(1) f ne unfolding well_formed_def by blast
qed

lemma save_file_overwrites:
  assumes "well_formed fs" and "lookup fs p = Some (File c0)"
  shows "save_file fs p c True = ((fs(p \<mapsto> File c), [(Info, Saved p)]), Inr True)"
proof -
  from parent_of_file [OF assms] have ne: "p \<noteq> []" and par: "lookup fs (butlast p) = Some Dir"
    by simp_all
  have m: "mkdir_parents fs (butlast p) = Inr fs" using par by (rule mkdir_parents_present)
  have w: "write_file fs p c = Inr (fs(p \<mapsto> File c))"
    using assms(2) par by (simp add: write_file_def)
  show ?thesis by (simp add: save_file_def m w)
qed

lemma save_file_keeps:
  assumes "lookup fs p = Some (File c0)"
  shows "save_file fs p c False = ((fs, [(Warning, SkipExists p)]), Inr False)"
  using assms by (simp add: save_file_def path_exists_def)

text \<open>
  Claim C1, as the code has it. A flush of a sponsor with episode number \<open>e_new\<close> onto an
  existing file that is not exempted and whose persisted record has episode number
  \<open>e_old\<close> (one of the two numbers not being a zero that Python reads as false) leaves
  the file system as it is and logs that the file is the latest when \<open>e_new \<le> e_old\<close>.
  When \<open>e_new > e_old\<close> the candidate is written, and the write logged, only if
  overwriting is enabled; if it is disabled the writer leaves the file system as it is
  and logs that the file exists.
\<close>

theorem sponsor_flush_writes_newer_when_overwriting:
  assumes "well_formed fs"
    and "lookup fs (dest_dir @ [filename]) = Some (File (Document post_file))"
    and "filename \<notin> data_dont_override CONFIGURATION"
    and "map_of (metadata post_file) ''episode'' = Some (YInt e_old)"
    and "sponsor.episode s = Some e_new"
    and "e_old \<noteq> 0 \<or> 0 < e_new"
  shows "process_and_serialize_object CONFIGURATION fs filename (SponsorObj s) dest_dir overwrite =
           (if e_new \<le> e_old
            then ((fs, [(Warning, SkipLatest (dest_dir @ [filename]))]), Inr ())
            else if overwrite
            then ((fs(dest_dir @ [filename] \<mapsto> File (dumps_object (SponsorObj s))),
                   [(Info, Saved (dest_dir @ [filename]))]), Inr ())
            else ((fs, [(Warning, SkipExists (dest_dir @ [filename]))]), Inr ()))"
proof -
  let ?p = "dest_dir @ [filename]"
  have ex: "path_exists fs ?p" using assms(2) by (simp add: path_exists_def)
  have ld: "load_post fs ?p = Inr post_file" using assms(2) by (simp add: load_post_def)
  have latest: "file_is_latest post_file s = Inr (e_new \<le> e_old)"
    using assms(4,5,6) by (auto simp: file_is_latest_def truthy_def py_int_def)
  have step: "process_and_serialize_object CONFIGURATION fs filename (SponsorObj s) dest_dir overwrite =
      (if e_new \<le> e_old then ((fs, [(Warning, SkipLatest ?p)]), Inr ())
       else discard (save_file fs ?p (dumps_object (SponsorObj s)) overwrite))"
    using ex ld latest assms(3) by (simp add: process_and_serialize_object_def)
  show ?thesis
  proof (cases overwrite)
    case True
    have "save_file fs ?p (dumps_object (SponsorObj s)) True =
        ((fs(?p \<mapsto> File (dumps_object (SponsorObj s))), [(Info, Saved ?p)]), Inr True)"
      using assms(1,2) by (rule save_file_overwrites)
    then show ?thesis using step True by (simp add: discard_def)
  next
    case False
    have "save_file fs ?p (dumps_object (SponsorObj s)) False =
        ((fs, [(Warning, SkipExists ?p)]), Inr False)"
      using assms(2) by (rule save_file_keeps)
    then show ?thesis using step False by (simp add: discard_def)
  qed
qed

lemma sponsors_dir_well_formed:
  "well_formed [[''sponsors''] \<mapsto> Dir, [''sponsors'', ''acme.com-lup.md''] \<mapsto> File c]"
proof -
  have a: "q = []" if "strict_prefix q [''sponsors'']" for q :: path
    using that by (cases q) (auto simp: strict_prefix_def)
  have b: "q = [] \<or> q = [''sponsors'']" if "strict_prefix q [''sponsors'', ''acme.com-lup.md'']" for q :: path
  proof (cases q)
    case Nil
    then show ?thesis by simp
  next
    case (Cons x xs)
    then show ?thesis using that by (cases xs) (auto simp: strict_prefix_def)
  qed
  show ?thesis
    unfolding well_formed_def
  proof (intro allI impI)
    fix p q :: path
    assume p: "[[''sponsors''] \<mapsto> Dir, [''sponsors'', ''acme.com-lup.md''] \<mapsto> File c] p \<noteq> None"
      and q: "strict_prefix q p"
    from p have "p = [''sponsors''] \<or> p = [''sponsors'', ''acme.com-lup.md'']"
      by (auto split: if_splits)
    then have "q = [] \<or> q = [''sponsors'']" using q a b by blast
    then show "lookup [[''sponsors''] \<mapsto> Dir, [''sponsors'', ''acme.com-lup.md''] \<mapsto> File c] q = Some Dir"
      by (auto simp: lookup_def)
  qed
qed

theorem sponsor_flush_writes_newer_witness:
  "process_and_serialize_object \<lparr>show_table = [], usernames_map = [], data_dont_override = {}\<rparr>
     [[''sponsors''] \<mapsto> Dir,
      [''sponsors'', ''acme.com-lup.md''] \<mapsto>
        File (Document \<lparr>content = [], metadata = [(''shortname'', YStr ''acme''), (''episode'', YInt 1)]\<rparr>)]
     ''acme.com-lup.md'' (SponsorObj \<lparr>shortname = ''acme'', episode = Some 2\<rparr>) [''sponsors''] True
   = (([[''sponsors''] \<mapsto> Dir,
        [''sponsors'', ''acme.com-lup.md''] \<mapsto>
          File (Document \<lparr>content = [], metadata = [(''shortname'', YStr ''acme''), (''episode'', YInt 2)]\<rparr>)],
       [(Info, Saved [''sponsors'', ''acme.com-lup.md''])]), Inr ())"
proof -
  let ?old = "Document \<lparr>content = [], metadata = [(''shortname'', YStr ''acme''), (''episode'', YInt 1)]\<rparr>"
  let ?fs = "[[''sponsors''] \<mapsto> Dir, [''sponsors'', ''acme.com-lup.md''] \<mapsto> File ?old]"
  let ?cfg = "\<lparr>show_table = [], usernames_map = [], data_dont_override = {}\<rparr>"
  let ?s = "\<lparr>shortname = ''acme'', episode = Some (2 :: int)\<rparr>"
  have h1: "well_formed ?fs" by (rule sponsors_dir_well_formed)
  have h2: "lookup ?fs ([''sponsors''] @ [''acme.com-lup.md'']) =
      Some (File (Document \<lparr>content = [], metadata = [(''shortname'', YStr ''acme''), (''episode'', YInt 1)]\<rparr>))"
    by (simp add: lookup_def)
  have h3: "''acme.com-lup.md'' \<notin> data_dont_override ?cfg" by simp
  have h4: "map_of (metadata \<lparr>content = [], metadata = [(''shortname'', YStr ''acme''), (''episode'', YInt 1)]\<rparr>) ''episode''
      = Some (YInt 1)" by simp
  have h5: "sponsor.episode ?s = Some 2" by simp
  have h6: "(1 :: int) \<noteq> 0 \<or> (0 :: int) < 2" by simp
  from sponsor_flush_writes_newer_when_overwriting [OF h1 h2 h3 h4 h5 h6, of True]
  show ?thesis by (simp add: dumps_object_def model_dump_def)
qed

text \<open>
  The claim as it stands fails when overwriting is disabled: the candidate has the
  greater episode number, and the file is left as it is.
\<close>

theorem sponsor_flush_no_overwrite_counterexample:
  "process_and_serialize_object \<lparr>show_table = [], usernames_map = [], data_dont_override = {}\<rparr>
     [[''sponsors''] \<mapsto> Dir,
      [''sponsors'', ''acme.com-lup.md''] \<mapsto>
        File (Document \<lparr>content = [], metadata = [(''shortname'', YStr ''acme''), (''episode'', YInt 1)]\<rparr>)]
     ''acme.com-lup.md'' (SponsorObj \<lparr>shortname = ''acme'', episode = Some 2\<rparr>) [''sponsors''] False
   = (([[''sponsors''] \<mapsto> Dir,
        [''sponsors'', ''acme.com-lup.md''] \<mapsto>
          File (Document \<lparr>content = [], metadata = [(''shortname'', YStr ''acme''), (''episode'', YInt 1)]\<rparr>)],
       [(Warning, SkipExists [''sponsors'', ''acme.com-lup.md''])]), Inr ())"
  by (simp add: process_and_serialize_object_def path_exists_def lookup_def load_post_def
      file_is_latest_def truthy_def py_int_def save_file_def discard_def Let_def)

text \<open>
  Claim C3 does not hold of the code. The flush of a participant onto an existing file
  builds a new document with an empty body from the merged attributes, so the body of
  the persisted document is lost: here the file of a host holds a biography, the
  candidate brings a homepage, and the file written has the homepage and no body.
\<close>

theorem participant_flush_replaces_body:
  "process_and_serialize_object \<lparr>show_table = [], usernames_map = [], data_dont_override = {}\<rparr>
     [[''people''] \<mapsto> Dir,
      [''people'', ''wes.md''] \<mapsto>
        File (Document
          \<lparr>content = ''Wes is a host.'',
           metadata = [(''type'', YStr ''host''), (''username'', YStr ''wes''),
                       (''title'', YStr ''Wes Payne''), (''homepage'', YNull),
                       (''avatar'', YNull)]\<rparr>)]
     ''wes.md''
     (ParticipantObj \<lparr>type = ''host'', username = ''wes'', title = ''Wes Payne'',
                      homepage = Some ''https://wes.example'', avatar = None\<rparr>)
     [''people''] True
   = (([[''people''] \<mapsto> Dir,
        [''people'', ''wes.md''] \<mapsto>
          File (Document
            \<lparr>content = [],
             metadata = [(''type'', YStr ''host''), (''username'', YStr ''wes''),
                         (''title'', YStr ''Wes Payne''),
                         (''homepage'', YStr ''https://wes.example''),
                         (''avatar'', YNull)]\<rparr>)],
       [(Info, Saved [''people'', ''wes.md''])]), Inr ())"
  by (simp add: process_and_serialize_object_def path_exists_def lookup_def load_post_def
      participant_of_metadata_def required_str_def optional_field_def dict_update_def
      optional_str_def dumps_object_def model_dump_def save_file_def mkdir_parents_def
      write_file_def discard_def Let_def)

section \<open>Properties of the chapters request\<close>

lemma attempts_append:
  "attempts w ch (xs @ ys) r =
     (case attempts w ch xs r of
        (l, Again r') \<Rightarrow> (case attempts w ch ys r' of (l', a) \<Rightarrow> (l @ l', a))
      | (l, a) \<Rightarrow> (l, a))"
proof (induction xs arbitrary: r)
  case Nil
  show ?case by (simp split: prod.splits)
next
  case (Cons x xs)
  show ?case
  proof (cases "attempt_chapters w ch x r")
    case (Pair l a)
    show ?thesis
    proof (cases a)
      case (Again r1)
      then show ?thesis using Pair Cons.IH [of r1]
        by (simp split: prod.splits attempt.splits)
    qed (simp_all add: Pair)
  qed
qed

lemma attempts_chunked:
  assumes "\<forall>n \<in> set ns. chapters_get w (url c) n = Inl ChunkedEncodingError"
  shows "attempts w (Some c) ns r = (replicate (length ns) (Warning, ChaptersRetry), Again r)"
  using assms
proof (induction ns)
  case Nil
  show ?case by simp
next
  case (Cons n ns)
  then have "attempt_chapters w (Some c) n r = ([(Warning, ChaptersRetry)], Again r)"
    by (simp add: attempt_chapters_def chapters_handler_def)
  then show ?case using Cons by simp
qed

lemma attempts_retry_then:
  assumes "\<forall>n < k. chapters_get w (url c) n = Inl ChunkedEncodingError" and "k < N"
    and "attempt_chapters w (Some c) k None = (l, a)" and "\<forall>r. a \<noteq> Again r"
  shows "attempts w (Some c) [0 ..< N] None = (replicate k (Warning, ChaptersRetry) @ l, a)"
proof -
  have "[0 ..< k + (N - k)] = [0 ..< k] @ [k ..< k + (N - k)]"
    by (rule upt_add_eq_append) simp
  moreover have "k + (N - k) = N" using assms(2) by simp
  moreover have "[k ..< N] = k # [Suc k ..< N]" using assms(2) by (rule upt_conv_Cons)
  ultimately have split: "[0 ..< N] = [0 ..< k] @ k # [Suc k ..< N]" by simp
  have "\<forall>n \<in> set [0 ..< k]. chapters_get w (url c) n = Inl ChunkedEncodingError"
    using assms(1) by simp
  then have pre: "attempts w (Some c) [0 ..< k] None = (replicate k (Warning, ChaptersRetry), Again None)"
    using attempts_chunked [of "[0 ..< k]" w c None] by simp
  have here: "attempts w (Some c) (k # [Suc k ..< N]) None = (l, a)"
    using assms(3,4) by (cases a) simp_all
  show ?thesis by (simp add: split attempts_append pre here del: attempts.simps)
qed

text \<open>
  Claim C4, part by part. After \<open>k\<close> attempts that raise the chunked-encoding error, each
  of which is logged and retried, an HTTP error response gives no chapters without a
  further attempt, a body that fails the validation gives no chapters with a warning, and
  a valid body gives the chapters. The last part of the claim does not hold of the code:
  when every attempt up to the retry count raises the chunked-encoding error, the error
  is logged and the call then raises \<^verbatim>\<open>AttributeError\<close>, because its last line reads
  the response that was never assigned.
\<close>

theorem chapters_fetch_outcomes:
  "(k < Retry_Count Settings \<and> (\<forall>n < k. chapters_get w (url c) n = Inl ChunkedEncodingError) \<longrightarrow>
      (chapters_get w (url c) k = Inr (Response False body) \<longrightarrow>
         get_podcast_chapters Settings w (Some c) =
           (replicate k (Warning, ChaptersRetry), Inr None)) \<and>
      (chapters_get w (url c) k = Inr (Response True body) \<and> body \<noteq> [] \<and> \<not> chapters_valid w body \<longrightarrow>
         get_podcast_chapters Settings w (Some c) =
           (replicate k (Warning, ChaptersRetry) @ [(Warning, ChaptersInvalid)], Inr None)) \<and>
      (chapters_get w (url c) k = Inr (Response True body) \<and> body \<noteq> [] \<and> chapters_valid w body \<longrightarrow>
         get_podcast_chapters Settings w (Some c) =
           (replicate k (Warning, ChaptersRetry), Inr (Some (Chapters body))))) \<and>
   ((\<forall>n < Retry_Count Settings. chapters_get w (url c) n = Inl ChunkedEncodingError) \<longrightarrow>
      get_podcast_chapters Settings w (Some c) =
        (replicate (Retry_Count Settings) (Warning, ChaptersRetry) @ [(Error, ChaptersUnavailable)],
         Inl AttributeError))"
proof (intro conjI impI)
  assume h: "k < Retry_Count Settings \<and> (\<forall>n < k. chapters_get w (url c) n = Inl ChunkedEncodingError)"
    and g: "chapters_get w (url c) k = Inr (Response False body)"
  have "attempt_chapters w (Some c) k None = ([], Returned)"
    using g by (simp add: attempt_chapters_def raise_for_status_def chapters_handler_def)
  then have "attempts w (Some c) [0 ..< Retry_Count Settings] None =
      (replicate k (Warning, ChaptersRetry) @ [], Returned)"
    using h by (intro attempts_retry_then) simp_all
  then show "get_podcast_chapters Settings w (Some c) = (replicate k (Warning, ChaptersRetry), Inr None)"
    by (simp add: get_podcast_chapters_def)
next
  assume h: "k < Retry_Count Settings \<and> (\<forall>n < k. chapters_get w (url c) n = Inl ChunkedEncodingError)"
    and g: "chapters_get w (url c) k = Inr (Response True body) \<and> body \<noteq> [] \<and> \<not> chapters_valid w body"
  have "attempt_chapters w (Some c) k None = ([(Warning, ChaptersInvalid)], Returned)"
    using g by (simp add: attempt_chapters_def raise_for_status_def chapters_handler_def
        response_text_def)
  then have "attempts w (Some c) [0 ..< Retry_Count Settings] None =
      (replicate k (Warning, ChaptersRetry) @ [(Warning, ChaptersInvalid)], Returned)"
    using h by (intro attempts_retry_then) simp_all
  then show "get_podcast_chapters Settings w (Some c) =
      (replicate k (Warning, ChaptersRetry) @ [(Warning, ChaptersInvalid)], Inr None)"
    by (simp add: get_podcast_chapters_def)
next
  assume h: "k < Retry_Count Settings \<and> (\<forall>n < k. chapters_get w (url c) n = Inl ChunkedEncodingError)"
    and g: "chapters_get w (url c) k = Inr (Response True body) \<and> body \<noteq> [] \<and> chapters_valid w body"
  have "attempt_chapters w (Some c) k None = ([], Broke (Response True body))"
    using g by (simp add: attempt_chapters_def raise_for_status_def response_text_def)
  then have "attempts w (Some c) [0 ..< Retry_Count Settings] None =
      (replicate k (Warning, ChaptersRetry) @ [], Broke (Response True body))"
    using h by (intro attempts_retry_then) simp_all
  then show "get_podcast_chapters Settings w (Some c) =
      (replicate k (Warning, ChaptersRetry), Inr (Some (Chapters body)))"
    using g by (simp add: get_podcast_chapters_def chapters_of_response_def response_text_def)
next
  assume h: "\<forall>n < Retry_Count Settings. chapters_get w (url c) n = Inl ChunkedEncodingError"
  then have "\<forall>n \<in> set [0 ..< Retry_Count Settings]. chapters_get w (url c) n = Inl ChunkedEncodingError"
    by simp
  then have "attempts w (Some c) [0 ..< Retry_Count Settings] None =
      (replicate (length [0 ..< Retry_Count Settings]) (Warning, ChaptersRetry), Again None)"
    by (rule attempts_chunked)
  then show "get_podcast_chapters Settings w (Some c) =
      (replicate (Retry_Count Settings) (Warning, ChaptersRetry) @ [(Error, ChaptersUnavailable)],
       Inl AttributeError)"
    by (simp add: get_podcast_chapters_def chapters_of_response_def)
qed

theorem chapters_fetch_outcomes_witness:
  "get_podcast_chapters example_settings
     (offline\<lparr>chapters_get := \<lambda>u n. if n < 2 then Inl ChunkedEncodingError else Inr (Response False [])\<rparr>)
     (Some \<lparr>url = ''https://feed.example/chapters.json'', type = ''application/json''\<rparr>)
     = (replicate 2 (Warning, ChaptersRetry), Inr None) \<and>
   get_podcast_chapters example_settings
     (offline\<lparr>chapters_get := \<lambda>u n. if n < 1 then Inl ChunkedEncodingError else Inr (Response True ''{}'')\<rparr>)
     (Some \<lparr>url = ''https://feed.example/chapters.json'', type = ''application/json''\<rparr>)
     = (replicate 1 (Warning, ChaptersRetry) @ [(Warning, ChaptersInvalid)], Inr None) \<and>
   get_podcast_chapters example_settings
     (offline\<lparr>chapters_get := \<lambda>u n. Inr (Response True ''{}''), chapters_valid := \<lambda>s. True\<rparr>)
     (Some \<lparr>url = ''https://feed.example/chapters.json'', type = ''application/json''\<rparr>)
     = (replicate 0 (Warning, ChaptersRetry), Inr (Some (Chapters ''{}''))) \<and>
   get_podcast_chapters example_settings
     (offline\<lparr>chapters_get := \<lambda>u n. Inl ChunkedEncodingError\<rparr>)
     (Some \<lparr>url = ''https://feed.example/chapters.json'', type = ''application/json''\<rparr>)
     = (replicate (Retry_Count example_settings) (Warning, ChaptersRetry) @ [(Error, ChaptersUnavailable)],
        Inl AttributeError) \<and>
   Retry_Count example_settings = 3"
proof -
  let ?c = "\<lparr>url = ''https://feed.example/chapters.json'', type = ''application/json''\<rparr>"
  let ?w1 = "offline\<lparr>chapters_get := \<lambda>u n. if n < 2 then Inl ChunkedEncodingError else Inr (Response False [])\<rparr>"
  let ?w2 = "offline\<lparr>chapters_get := \<lambda>u n. if n < 1 then Inl ChunkedEncodingError else Inr (Response True ''{}'')\<rparr>"
  let ?w3 = "offline\<lparr>chapters_get := \<lambda>u n. Inr (Response True ''{}''), chapters_valid := \<lambda>s. True\<rparr>"
  let ?w4 = "offline\<lparr>chapters_get := \<lambda>u n. Inl ChunkedEncodingError\<rparr>"
  have n: "Retry_Count example_settings = 3" by (simp add: example_settings_def)
  have a: "get_podcast_chapters example_settings ?w1 (Some ?c) = (replicate 2 (Warning, ChaptersRetry), Inr None)"
    using chapters_fetch_outcomes [of 2 example_settings ?w1 ?c "[]"] n by simp
  have b: "get_podcast_chapters example_settings ?w2 (Some ?c) =
      (replicate 1 (Warning, ChaptersRetry) @ [(Warning, ChaptersInvalid)], Inr None)"
    using chapters_fetch_outcomes [of 1 example_settings ?w2 ?c "''{}''"] n
    by (simp add: offline_def)
  have c: "get_podcast_chapters example_settings ?w3 (Some ?c) =
      (replicate 0 (Warning, ChaptersRetry), Inr (Some (Chapters ''{}'')))"
    using chapters_fetch_outcomes [of 0 example_settings ?w3 ?c "''{}''"] n by simp
  have d: "get_podcast_chapters example_settings ?w4 (Some ?c) =
      (replicate (Retry_Count example_settings) (Warning, ChaptersRetry) @ [(Error, ChaptersUnavailable)],
       Inl AttributeError)"
    using chapters_fetch_outcomes [of 0 example_settings ?w4 ?c "[]"] by simp
  from a b c d n show ?thesis by (intro conjI)
qed

section \<open>Properties of the episode builder\<close>




































end
